theory Spec2Isabelle
  imports Complex_Main
begin

section \<open>The Funnel tokenizer of PaddleNLP: a shallow embedding\<close>

text \<open>
  The development follows \<^verbatim>\<open>paddlenlp/transformers/funnel/tokenizer.py\<close>.
  Python integers are \<open>int\<close>, Python lists are HOL lists, \<open>None\<close>-able arguments are
  options, and every \<^verbatim>\<open>raise\<close>, failed \<^verbatim>\<open>assert\<close> and out-of-range read is a
  value \<open>Inl e\<close> of a sum type. A Python string is a list of Unicode code points
  (\<open>nat\<close>), because the offset rematching is about Unicode normalisation and HOL's
  \<open>char\<close> is a byte.
\<close>

subsection \<open>Python values\<close>

type_synonym uchar = nat
type_synonym ustring = "nat list"

datatype error = IndexError | AssertionError | ValueError

text \<open>\<^verbatim>\<open>xs[i]\<close>: a negative index counts from the end; out of range raises.\<close>

definition py_index :: "'a list \<Rightarrow> int \<Rightarrow> error + 'a" where
  "py_index xs i =
     (if 0 \<le> i \<and> i < int (length xs) then Inr (xs ! nat i)
      else if i < 0 \<and> - int (length xs) \<le> i then Inr (xs ! nat (int (length xs) + i))
      else Inl IndexError)"

text \<open>\<^verbatim>\<open>xs[i:]\<close> and \<^verbatim>\<open>xs[:i]\<close>: a negative bound counts from the end, and both
  bounds are clipped to the list.\<close>

definition py_slice_from :: "'a list \<Rightarrow> int \<Rightarrow> 'a list" where
  "py_slice_from xs i = drop (nat (if i < 0 then int (length xs) + i else i)) xs"

definition py_slice_to :: "'a list \<Rightarrow> int \<Rightarrow> 'a list" where
  "py_slice_to xs i = take (nat (if i < 0 then int (length xs) + i else i)) xs"

text \<open>\<^verbatim>\<open>hay.index(needle)\<close> on strings: the position of the first occurrence,
  \<open>None\<close> standing for the \<^verbatim>\<open>ValueError\<close> of an absent needle.\<close>

fun str_index :: "ustring \<Rightarrow> ustring \<Rightarrow> nat option" where
  "str_index [] needle = (if needle = [] then Some 0 else None)"
| "str_index (h # t) needle =
     (if take (length needle) (h # t) = needle then Some 0
      else map_option Suc (str_index t needle))"

subsection \<open>The module-level helper\<close>

text \<open>\<^verbatim>\<open>stem\<close>: drop a leading \<^verbatim>\<open>##\<close> (code point 35 twice).\<close>

definition stem :: "ustring \<Rightarrow> ustring" where
  "stem token = (if take 2 token = [35, 35] then drop 2 token else token)"

subsection \<open>The tokenizer object and what it inherits\<close>

text \<open>
  The arguments of \<^verbatim>\<open>batch_encode\<close> that the modelled paths read.
  \<open>max_seq_len\<close> is an integer: with \<^verbatim>\<open>None\<close> the sliding-window path stops at
  its first subtraction.
\<close>

record config =
  max_seq_len :: int
  pad_to_max_seq_len :: bool
  stride :: int
  truncation_strategy :: string
  return_position_ids :: bool
  return_token_type_ids :: bool
  return_attention_mask :: bool
  return_length :: bool
  return_overflowing_tokens :: bool
  return_special_tokens_mask :: bool

text \<open>The dictionary \<^verbatim>\<open>encoded_inputs\<close>: a key that is absent is \<open>None\<close>.\<close>

record encoded_inputs =
  input_ids :: "int list"
  token_type_ids :: "int list option"
  special_tokens_mask :: "int list option"
  seq_len :: "int option"
  offset_mapping :: "(nat \<times> nat) list option"
  attention_mask :: "int list option"
  position_ids :: "int list option"
  overflow_to_sample :: "nat option"

text \<open>
  The attributes of \<^verbatim>\<open>self\<close>, and the methods the file calls but does not define:
  they come from \<^verbatim>\<open>BertTokenizer\<close>, \<^verbatim>\<open>PretrainedTokenizer\<close>,
  \<^verbatim>\<open>BasicTokenizer\<close> and \<^verbatim>\<open>WordpieceTokenizer\<close>, and are parameters here.
\<close>

record tokenizer =
  cls_token_id :: int
  sep_token_id :: int
  pad_token_id :: int
  pad_token_type_id :: int
  padding_side :: string
  unk_token :: ustring
  do_lower_case :: bool
  basic_tokenize :: "ustring \<Rightarrow> ustring list"
  wordpiece_tokenize :: "ustring \<Rightarrow> ustring list"
  token_to_id :: "ustring \<Rightarrow> int"
  build_inputs_with_special_tokens :: "int list \<Rightarrow> int list option \<Rightarrow> int list"
  encode :: "int list \<Rightarrow> int list option \<Rightarrow> config \<Rightarrow> error + encoded_inputs"

text \<open>
  Modelled from the spec: \<^verbatim>\<open>convert_tokens_to_ids\<close> of \<^verbatim>\<open>PretrainedTokenizer\<close>
  is not in the source file; the spec's vocabulary lookup maps each token to its id
  (the unknown id for a token outside the vocabulary), one id per token.
\<close>

definition convert_tokens_to_ids :: "tokenizer \<Rightarrow> ustring list \<Rightarrow> int list" where
  "convert_tokens_to_ids tk tokens = map (token_to_id tk) tokens"

text \<open>
  Modelled from the spec: \<^verbatim>\<open>build_inputs_with_special_tokens\<close> of
  \<^verbatim>\<open>BertTokenizer\<close> is not in the source file; the spec gives its layout as
  \<^verbatim>\<open>[cls] A [sep]\<close> or \<^verbatim>\<open>[cls] A [sep] B [sep]\<close>.
\<close>

definition bert_build_inputs_with_special_tokens ::
  "int \<Rightarrow> int \<Rightarrow> int list \<Rightarrow> int list option \<Rightarrow> int list" where
  "bert_build_inputs_with_special_tokens cls sep token_ids_0 token_ids_1 =
     (case token_ids_1 of
        None \<Rightarrow> [cls] @ token_ids_0 @ [sep]
      | Some ids_1 \<Rightarrow> [cls] @ token_ids_0 @ [sep] @ ids_1 @ [sep])"

text \<open>The functions of \<^verbatim>\<open>unicodedata\<close> and \<^verbatim>\<open>_is_control\<close>, also parameters.\<close>

record unicode_env =
  lower :: "ustring \<Rightarrow> ustring"
  normalize_NFD :: "ustring \<Rightarrow> ustring"
  category :: "uchar \<Rightarrow> string"
  is_control :: "uchar \<Rightarrow> bool"

subsection \<open>Tokenization\<close>

text \<open>\<^verbatim>\<open>_tokenize\<close>: two nested loops appending to \<^verbatim>\<open>split_tokens\<close>.\<close>

definition tokenize_private :: "tokenizer \<Rightarrow> ustring \<Rightarrow> ustring list" where
  "tokenize_private tk text =
     foldl (\<lambda>split_tokens token.
              foldl (\<lambda>split_tokens sub_token. split_tokens @ [sub_token])
                split_tokens (wordpiece_tokenize tk token))
       [] (basic_tokenize tk text)"

definition tokenize :: "tokenizer \<Rightarrow> ustring \<Rightarrow> ustring list" where
  "tokenize tk text = tokenize_private tk text"

text \<open>\<^verbatim>\<open>custom_tokenize\<close>: the same loops, an unknown marker replaced by the coarse
  token it came from.\<close>

definition custom_tokenize :: "tokenizer \<Rightarrow> ustring \<Rightarrow> ustring list" where
  "custom_tokenize tk text =
     foldl (\<lambda>split_tokens token.
              foldl (\<lambda>split_tokens sub_token.
                       split_tokens @ [if sub_token \<noteq> unk_token tk then sub_token else token])
                split_tokens (wordpiece_tokenize tk token))
       [] (basic_tokenize tk text)"

subsection \<open>Special tokens\<close>

definition cls_token_type_id :: int where
  "cls_token_type_id = 2"

definition num_special_tokens_to_add :: "tokenizer \<Rightarrow> bool \<Rightarrow> nat" where
  "num_special_tokens_to_add tk pair =
     (let token_ids_0 = []; token_ids_1 = []
      in length (build_inputs_with_special_tokens tk token_ids_0
                   (if pair then Some token_ids_1 else None)))"

definition build_offset_mapping_with_special_tokens ::
  "(nat \<times> nat) list \<Rightarrow> (nat \<times> nat) list option \<Rightarrow> (nat \<times> nat) list" where
  "build_offset_mapping_with_special_tokens offset_mapping_0 offset_mapping_1 =
     (case offset_mapping_1 of
        None \<Rightarrow> [(0, 0)] @ offset_mapping_0 @ [(0, 0)]
      | Some om_1 \<Rightarrow> [(0, 0)] @ offset_mapping_0 @ [(0, 0)] @ om_1 @ [(0, 0)])"

definition create_token_type_ids_from_sequences ::
  "tokenizer \<Rightarrow> int list \<Rightarrow> int list option \<Rightarrow> int list" where
  "create_token_type_ids_from_sequences tk token_ids_0 token_ids_1 =
     (let sep = [sep_token_id tk]; cls = [cls_token_id tk]
      in case token_ids_1 of
           None \<Rightarrow>
             replicate (length cls) cls_token_type_id @ replicate (length (token_ids_0 @ sep)) 0
         | Some ids_1 \<Rightarrow>
             replicate (length cls) cls_token_type_id @ replicate (length (token_ids_0 @ sep)) 0
               @ replicate (length (ids_1 @ sep)) 1)"

definition get_special_tokens_mask ::
  "tokenizer \<Rightarrow> int list \<Rightarrow> int list option \<Rightarrow> bool \<Rightarrow> error + int list" where
  "get_special_tokens_mask tk token_ids_0 token_ids_1 already_has_special_tokens =
     (if already_has_special_tokens then
        (if token_ids_1 \<noteq> None then Inl ValueError
         else Inr (map (\<lambda>x. if x \<in> set [sep_token_id tk, cls_token_id tk] then 1 else 0)
                     token_ids_0))
      else
        (case token_ids_1 of
           Some ids_1 \<Rightarrow>
             Inr ([1] @ replicate (length token_ids_0) 0 @ [1] @ replicate (length ids_1) 0 @ [1])
         | None \<Rightarrow> Inr ([1] @ replicate (length token_ids_0) 0 @ [1])))"

subsection \<open>Truncation\<close>

type_synonym truncation = "int list \<times> int list option \<times> int list"

text \<open>
  The two loops of the \<^verbatim>\<open>longest_first\<close> strategy, over the remaining number of
  rounds. They differ in one comparison: the first takes from \<open>ids\<close> at equal lengths,
  the second from \<open>pair_ids\<close>. \<^verbatim>\<open>ids[-1]\<close> raises on an empty list;
  \<^verbatim>\<open>pair_ids[:-1]\<close> does not.
\<close>

fun longest_first_loop_ge :: "nat \<Rightarrow> int list \<Rightarrow> int list option \<Rightarrow> int list \<Rightarrow> error + truncation" where
  "longest_first_loop_ge 0 ids pair_ids overflowing_tokens = Inr (ids, pair_ids, overflowing_tokens)"
| "longest_first_loop_ge (Suc k) ids pair_ids overflowing_tokens =
     (if (case pair_ids of None \<Rightarrow> True | Some p \<Rightarrow> length ids \<ge> length p) then
        (case py_index ids (- 1) of
           Inl e \<Rightarrow> Inl e
         | Inr x \<Rightarrow> longest_first_loop_ge k (py_slice_to ids (- 1)) pair_ids ([x] @ overflowing_tokens))
      else longest_first_loop_ge k ids (map_option (\<lambda>p. py_slice_to p (- 1)) pair_ids) overflowing_tokens)"

fun longest_first_loop_gt :: "nat \<Rightarrow> int list \<Rightarrow> int list option \<Rightarrow> int list \<Rightarrow> error + truncation" where
  "longest_first_loop_gt 0 ids pair_ids overflowing_tokens = Inr (ids, pair_ids, overflowing_tokens)"
| "longest_first_loop_gt (Suc k) ids pair_ids overflowing_tokens =
     (if (case pair_ids of None \<Rightarrow> True | Some p \<Rightarrow> length ids > length p) then
        (case py_index ids (- 1) of
           Inl e \<Rightarrow> Inl e
         | Inr x \<Rightarrow> longest_first_loop_gt k (py_slice_to ids (- 1)) pair_ids ([x] @ overflowing_tokens))
      else longest_first_loop_gt k ids (map_option (\<lambda>p. py_slice_to p (- 1)) pair_ids) overflowing_tokens)"

definition truncate_sequences ::
  "int list \<Rightarrow> int list option \<Rightarrow> int \<Rightarrow> string \<Rightarrow> int \<Rightarrow> error + truncation" where
  "truncate_sequences ids pair_ids num_tokens_to_remove strategy strd =
     (if num_tokens_to_remove \<le> 0 then Inr (ids, pair_ids, [])
      else if strategy = ''longest_first'' then
        (case (if (case pair_ids of None \<Rightarrow> True | Some p \<Rightarrow> length ids \<le> length p)
               then longest_first_loop_ge (nat num_tokens_to_remove) ids pair_ids []
               else longest_first_loop_gt (nat num_tokens_to_remove) ids pair_ids []) of
           Inl e \<Rightarrow> Inl e
         | Inr (ids', pair_ids', overflowing_tokens) \<Rightarrow>
             (let window_len = min (int (length ids')) strd
              in Inr (ids', pair_ids',
                      if window_len > 0 then py_slice_from ids' (- window_len) @ overflowing_tokens
                      else overflowing_tokens)))
      else if strategy = ''only_first'' then
        (if \<not> int (length ids) > num_tokens_to_remove then Inl AssertionError
         else
           (let window_len = min (int (length ids)) (strd + num_tokens_to_remove);
                overflowing_tokens = py_slice_from ids (- window_len);
                ids' = py_slice_to ids (- num_tokens_to_remove)
            in Inr (ids', pair_ids, overflowing_tokens)))
      else if strategy = ''only_second'' then
        (case pair_ids of
           None \<Rightarrow> Inl AssertionError
         | Some p \<Rightarrow>
             (if \<not> int (length p) > num_tokens_to_remove then Inl AssertionError
              else
                (let window_len = min (int (length p)) (strd + num_tokens_to_remove);
                     overflowing_tokens = py_slice_from p (- window_len);
                     p' = py_slice_to p (- num_tokens_to_remove)
                 in Inr (ids, Some p', overflowing_tokens))))
      else if strategy = ''do_not_truncate'' then Inl ValueError
      else Inl ValueError)"

subsection \<open>Offset rematching\<close>

text \<open>
  The body of the first loop of \<^verbatim>\<open>rematch\<close>: what one character of the text
  becomes. Lower-casing and the canonical decomposition may give several characters,
  the two filters may leave none.
\<close>

definition normalize_char :: "tokenizer \<Rightarrow> unicode_env \<Rightarrow> uchar \<Rightarrow> ustring" where
  "normalize_char tk env c =
     (let ch = [c];
          ch = (if do_lower_case tk then
                  (let ch = lower env ch;
                       ch = normalize_NFD env ch
                   in filter (\<lambda>c. category env c \<noteq> ''Mn'') ch)
                else ch)
      in filter (\<lambda>c. \<not> (c = 0 \<or> c = 0xFFFD \<or> is_control env c)) ch)"

text \<open>The first loop, over \<^verbatim>\<open>enumerate(text)\<close>, with its two accumulators.\<close>

fun char_mapping_loop ::
  "tokenizer \<Rightarrow> unicode_env \<Rightarrow> nat \<Rightarrow> ustring \<Rightarrow> ustring \<times> nat list \<Rightarrow> ustring \<times> nat list" where
  "char_mapping_loop tk env i [] (normalized_text, char_mapping) = (normalized_text, char_mapping)"
| "char_mapping_loop tk env i (c # text) (normalized_text, char_mapping) =
     (let ch = normalize_char tk env c
      in char_mapping_loop tk env (Suc i) text
           (normalized_text @ ch, char_mapping @ replicate (length ch) i))"

definition rematch_char_mapping :: "tokenizer \<Rightarrow> unicode_env \<Rightarrow> ustring \<Rightarrow> ustring \<times> nat list" where
  "rematch_char_mapping tk env text = char_mapping_loop tk env 0 text ([], [])"

text \<open>
  The second loop: each token, stemmed, is searched from \<open>offset\<close> on. A token that is
  not found raises (\<^verbatim>\<open>str.index\<close>), and so does a read of \<open>char_mapping\<close> out of
  range.
\<close>

fun token_mapping_loop ::
  "ustring \<Rightarrow> nat list \<Rightarrow> ustring list \<Rightarrow> nat \<Rightarrow> (nat \<times> nat) list \<Rightarrow> error + (nat \<times> nat) list" where
  "token_mapping_loop text char_mapping [] offset token_mapping = Inr token_mapping"
| "token_mapping_loop text char_mapping (token # tokens) offset token_mapping =
     (let token = stem token
      in case str_index (py_slice_from text (int offset)) token of
           None \<Rightarrow> Inl ValueError
         | Some i \<Rightarrow>
             (let start = i + offset;
                  end = start + length token
              in case py_index char_mapping (int start) of
                   Inl e \<Rightarrow> Inl e
                 | Inr a \<Rightarrow>
                     (case py_index char_mapping (int end - 1) of
                        Inl e \<Rightarrow> Inl e
                      | Inr b \<Rightarrow>
                          token_mapping_loop text char_mapping tokens end
                            (token_mapping @ [(a, b + 1)]))))"

definition rematch :: "tokenizer \<Rightarrow> unicode_env \<Rightarrow> ustring \<Rightarrow> error + (nat \<times> nat) list" where
  "rematch tk env text =
     (let tokens = custom_tokenize tk text;
          (normalized_text, char_mapping) = rematch_char_mapping tk env text
      in token_mapping_loop normalized_text char_mapping tokens 0 [])"

subsection \<open>The sliding-window batch encoder\<close>

text \<open>
  The padding block inside the loop of \<^verbatim>\<open>batch_encode\<close>, on the dictionary built
  so far: pad on the tokenizer's side when padding is needed (on neither side when
  \<open>padding_side\<close> is some other string), else only set the attention mask.
\<close>

definition pad_encoded_inputs :: "tokenizer \<Rightarrow> config \<Rightarrow> bool \<Rightarrow> encoded_inputs \<Rightarrow> encoded_inputs" where
  "pad_encoded_inputs tk cfg needs_to_be_padded e =
     (if needs_to_be_padded then
        (let difference = nat (max_seq_len cfg - int (length (input_ids e)))
         in if padding_side tk = ''right'' then
              (let e = (if return_attention_mask cfg then
                          e\<lparr>attention_mask :=
                              Some (replicate (length (input_ids e)) 1 @ replicate difference 0)\<rparr>
                        else e);
                   e = (if return_token_type_ids cfg then
                          e\<lparr>token_type_ids :=
                              map_option (\<lambda>t. t @ replicate difference (pad_token_type_id tk))
                                (token_type_ids e)\<rparr>
                        else e);
                   e = (if return_special_tokens_mask cfg then
                          e\<lparr>special_tokens_mask :=
                              map_option (\<lambda>t. t @ replicate difference 1) (special_tokens_mask e)\<rparr>
                        else e);
                   e = e\<lparr>input_ids := input_ids e @ replicate difference (pad_token_id tk)\<rparr>
               in e\<lparr>offset_mapping :=
                      map_option (\<lambda>t. t @ replicate difference (0, 0)) (offset_mapping e)\<rparr>)
            else if padding_side tk = ''left'' then
              (let e = (if return_attention_mask cfg then
                          e\<lparr>attention_mask :=
                              Some (replicate difference 0 @ replicate (length (input_ids e)) 1)\<rparr>
                        else e);
                   e = (if return_token_type_ids cfg then
                          e\<lparr>token_type_ids :=
                              map_option (\<lambda>t. replicate difference (pad_token_type_id tk) @ t)
                                (token_type_ids e)\<rparr>
                        else e);
                   e = (if return_special_tokens_mask cfg then
                          e\<lparr>special_tokens_mask :=
                              map_option (\<lambda>t. replicate difference 1 @ t) (special_tokens_mask e)\<rparr>
                        else e);
                   e = e\<lparr>input_ids := replicate difference (pad_token_id tk) @ input_ids e\<rparr>
               in e\<lparr>offset_mapping :=
                      map_option (\<lambda>t. replicate difference (0, 0) @ t) (offset_mapping e)\<rparr>)
            else e)
      else
        (if return_attention_mask cfg then
           e\<lparr>attention_mask := Some (replicate (length (input_ids e)) 1)\<rparr>
         else e))"

text \<open>
  One round of the \<^verbatim>\<open>while True\<close> loop of \<^verbatim>\<open>batch_encode\<close>, from the empty
  dictionary to the dictionary that is appended: special tokens, the length
  assertion, the padding block, positions and the sample index.
\<close>

definition encode_window ::
  "tokenizer \<Rightarrow> config \<Rightarrow> nat \<Rightarrow> int list \<Rightarrow> (nat \<times> nat) list \<Rightarrow> int list \<Rightarrow> (nat \<times> nat) list
     \<Rightarrow> error + encoded_inputs" where
  "encode_window tk cfg example_id ids mapping pair_ids pair_mapping =
     (let om = build_offset_mapping_with_special_tokens mapping (Some pair_mapping);
          sequence = build_inputs_with_special_tokens tk ids (Some pair_ids);
          tti = create_token_type_ids_from_sequences tk ids (Some pair_ids);
          e = \<lparr>input_ids = sequence, token_type_ids = None, special_tokens_mask = None,
               seq_len = None, offset_mapping = None, attention_mask = None,
               position_ids = None, overflow_to_sample = None\<rparr>;
          e = (if return_token_type_ids cfg then e\<lparr>token_type_ids := Some tti\<rparr> else e)
      in case (if return_special_tokens_mask cfg
               then map_sum id Some (get_special_tokens_mask tk ids (Some pair_ids) False)
               else Inr (special_tokens_mask e)) of
           Inl err \<Rightarrow> Inl err
         | Inr stm \<Rightarrow>
      (let e = e\<lparr>special_tokens_mask := stm\<rparr>;
           e = (if return_length cfg then e\<lparr>seq_len := Some (int (length (input_ids e)))\<rparr> else e)
       in if \<not> int (length (input_ids e)) \<le> max_seq_len cfg then Inl AssertionError
          else
      (let needs_to_be_padded =
             (pad_to_max_seq_len cfg \<and> max_seq_len cfg \<noteq> 0
              \<and> int (length (input_ids e)) < max_seq_len cfg);
           e = e\<lparr>offset_mapping := Some om\<rparr>;
           e = pad_encoded_inputs tk cfg needs_to_be_padded e;
           e = (if return_position_ids cfg then
                  e\<lparr>position_ids := Some (map int [0..<length (input_ids e)])\<rparr>
                else e)
       in Inr (e\<lparr>overflow_to_sample := Some example_id\<rparr>))))"

text \<open>
  The \<^verbatim>\<open>while True\<close> loop. It may run forever, so its result is an option:
  \<open>None\<close> is the loop that never leaves, \<open>Some (Inl e)\<close> the failed assertion,
  \<open>Some (Inr l)\<close> the list \<^verbatim>\<open>batch_encode_inputs\<close> at the \<^verbatim>\<open>break\<close>.
\<close>

partial_function (option) sliding_window_loop ::
  "tokenizer \<Rightarrow> config \<Rightarrow> nat \<Rightarrow> int list \<Rightarrow> (nat \<times> nat) list \<Rightarrow> int
     \<Rightarrow> int list \<Rightarrow> (nat \<times> nat) list \<Rightarrow> encoded_inputs list
     \<Rightarrow> (error + encoded_inputs list) option" where
  "sliding_window_loop tk cfg example_id first_ids token_offset_mapping max_len_for_pair
       second_ids token_pair_offset_mapping batch_encode_inputs =
     (let ids = first_ids;
          mapping = token_offset_mapping;
          (pair_ids, pair_mapping) =
            (if int (length second_ids) \<le> max_len_for_pair
             then (second_ids, token_pair_offset_mapping)
             else (py_slice_to second_ids max_len_for_pair,
                   py_slice_to token_pair_offset_mapping max_len_for_pair))
      in case encode_window tk cfg example_id ids mapping pair_ids pair_mapping of
           Inl e \<Rightarrow> Some (Inl e)
         | Inr encoded \<Rightarrow>
             (if int (length second_ids) \<le> max_len_for_pair
              then Some (Inr (batch_encode_inputs @ [encoded]))
              else sliding_window_loop tk cfg example_id first_ids token_offset_mapping
                     max_len_for_pair
                     (py_slice_from second_ids (max_len_for_pair - stride cfg))
                     (py_slice_from token_pair_offset_mapping (max_len_for_pair - stride cfg))
                     (batch_encode_inputs @ [encoded])))"

text \<open>
  The batch items modelled are those whose \<open>text\<close> and \<open>text_pair\<close> are strings,
  the shape \<^verbatim>\<open>rematch\<close> accepts.
\<close>

definition get_input_ids :: "tokenizer \<Rightarrow> ustring \<Rightarrow> int list" where
  "get_input_ids tk text =
     (let tokens = tokenize_private tk text in convert_tokens_to_ids tk tokens)"

text \<open>The body of the \<^verbatim>\<open>for\<close> loop over the batch.\<close>

definition batch_encode_item ::
  "tokenizer \<Rightarrow> unicode_env \<Rightarrow> config \<Rightarrow> nat \<Rightarrow> ustring \<Rightarrow> ustring option \<Rightarrow> encoded_inputs list
     \<Rightarrow> (error + encoded_inputs list) option" where
  "batch_encode_item tk env cfg example_id text text_pair batch_encode_inputs =
     (let first_ids = get_input_ids tk text
      in case (if stride cfg > 0 then text_pair else None) of
           Some tp \<Rightarrow>
             (let second_ids = get_input_ids tk tp;
                  max_len_for_pair =
                    max_seq_len cfg - int (length first_ids)
                      - int (num_special_tokens_to_add tk True)
              in case rematch tk env text of
                   Inl e \<Rightarrow> Some (Inl e)
                 | Inr token_offset_mapping \<Rightarrow>
                     (case rematch tk env tp of
                        Inl e \<Rightarrow> Some (Inl e)
                      | Inr token_pair_offset_mapping \<Rightarrow>
                          sliding_window_loop tk cfg example_id first_ids token_offset_mapping
                            max_len_for_pair second_ids token_pair_offset_mapping
                            batch_encode_inputs))
         | None \<Rightarrow>
             (case encode tk first_ids (map_option (get_input_ids tk) text_pair) cfg of
                Inl e \<Rightarrow> Some (Inl e)
              | Inr encoded \<Rightarrow> Some (Inr (batch_encode_inputs @ [encoded]))))"

fun batch_encode_loop ::
  "tokenizer \<Rightarrow> unicode_env \<Rightarrow> config \<Rightarrow> nat \<Rightarrow> (ustring \<times> ustring option) list
     \<Rightarrow> encoded_inputs list \<Rightarrow> (error + encoded_inputs list) option" where
  "batch_encode_loop tk env cfg example_id [] batch_encode_inputs = Some (Inr batch_encode_inputs)"
| "batch_encode_loop tk env cfg example_id ((text, text_pair) # rest) batch_encode_inputs =
     (case batch_encode_item tk env cfg example_id text text_pair batch_encode_inputs of
        None \<Rightarrow> None
      | Some (Inl e) \<Rightarrow> Some (Inl e)
      | Some (Inr batch_encode_inputs') \<Rightarrow>
          batch_encode_loop tk env cfg (Suc example_id) rest batch_encode_inputs')"

definition batch_encode ::
  "tokenizer \<Rightarrow> unicode_env \<Rightarrow> config \<Rightarrow> (ustring \<times> ustring option) list
     \<Rightarrow> (error + encoded_inputs list) option" where
  "batch_encode tk env cfg batch_text_or_text_pairs =
     batch_encode_loop tk env cfg 0 batch_text_or_text_pairs []"

subsection \<open>Specification-side notions\<close>

text \<open>The length of \<open>pair_ids\<close>, read as 0 when it is absent.\<close>

definition pair_len :: "int list option \<Rightarrow> nat" where
  "pair_len pair_ids = (case pair_ids of None \<Rightarrow> 0 | Some p \<Rightarrow> length p)"

text \<open>
  One removal step of \<^verbatim>\<open>longest_first\<close> in the specification's words: take one
  token from the end of the longer sequence, from \<open>ids\<close> when there is no pair; the
  removed tokens of \<open>ids\<close> are collected in front of the overflow, those of the pair
  are dropped. The rule for equal lengths is the parameter: \<open>True\<close> takes from
  \<open>ids\<close> (the specification's rule), \<open>False\<close> from \<open>pair_ids\<close>.
\<close>

definition longest_first_step :: "bool \<Rightarrow> truncation \<Rightarrow> truncation" where
  "longest_first_step ties_to_ids = (\<lambda>(ids, pair_ids, overflow).
     if (case pair_ids of
           None \<Rightarrow> True
         | Some p \<Rightarrow> length ids > length p \<or> (length ids = length p \<and> ties_to_ids))
     then (butlast ids, pair_ids, last ids # overflow)
     else (ids, map_option butlast pair_ids, overflow))"

text \<open>
  The coarse word behind each position of the segmenter's output: a word is repeated
  once for every subword it was cut into.
\<close>

definition coarse_words :: "tokenizer \<Rightarrow> ustring \<Rightarrow> ustring list" where
  "coarse_words tk text =
     concat (map (\<lambda>token. replicate (length (wordpiece_tokenize tk token)) token)
               (basic_tokenize tk text))"

text \<open>
  The lengths of the sequence-valued fields that are present in a dictionary, and the
  invariant that they all equal the length of \<open>input_ids\<close>.
\<close>

definition sequence_field_lengths :: "encoded_inputs \<Rightarrow> nat list" where
  "sequence_field_lengths e =
     [length (input_ids e)]
     @ (case token_type_ids e of None \<Rightarrow> [] | Some l \<Rightarrow> [length l])
     @ (case attention_mask e of None \<Rightarrow> [] | Some l \<Rightarrow> [length l])
     @ (case special_tokens_mask e of None \<Rightarrow> [] | Some l \<Rightarrow> [length l])
     @ (case position_ids e of None \<Rightarrow> [] | Some l \<Rightarrow> [length l])
     @ (case offset_mapping e of None \<Rightarrow> [] | Some l \<Rightarrow> [length l])"

definition equal_field_lengths :: "encoded_inputs \<Rightarrow> bool" where
  "equal_field_lengths e = list_all (\<lambda>n. n = length (input_ids e)) (sequence_field_lengths e)"

text \<open>
  The number of rounds of the sliding-window loop for a pair of \<open>L\<close> tokens, windows
  of \<open>m\<close> tokens and a step of \<open>d\<close> tokens: one round when the pair fits, else one
  more than the rounded-up quotient of the tokens beyond the first window by the step.
\<close>

definition num_windows :: "nat \<Rightarrow> nat \<Rightarrow> nat \<Rightarrow> nat" where
  "num_windows m d L = (if L \<le> m then 1 else 1 + (L - m + d - 1) div d)"

text \<open>
  The positions of the pair tokens that window \<open>k\<close> holds, for windows of \<open>m\<close>
  tokens, a step of \<open>d\<close> tokens and a pair of \<open>L\<close> tokens.
\<close>

definition pair_token_range :: "nat \<Rightarrow> nat \<Rightarrow> nat \<Rightarrow> nat \<Rightarrow> nat set" where
  "pair_token_range m d L k = {k * d ..< min (k * d + m) L}"

subsection \<open>Example instances\<close>

text \<open>
  A small tokenizer and Unicode table to run the definitions on: every character is a
  word of its own but for two sentences given by table, the segmenter cuts one word in
  two and knows no \<open>zzz\<close>; capital letters are lowered, \<open>U+00E9\<close> decomposes into
  \<open>e\<close> and a combining accent, a Hangul syllable into two jamo, and code points below
  32 are control characters. The special-token layout is the specification's.
\<close>

definition ustr :: "string \<Rightarrow> ustring" where
  "ustr s = map of_char s"

definition example_env :: unicode_env where
  "example_env =
     \<lparr>lower = map (\<lambda>c. if 65 \<le> c \<and> c \<le> 90 then c + 32 else c),
      normalize_NFD = (\<lambda>s. concat (map (\<lambda>c. if c = 233 then [101, 769]
                                              else if c = 44032 then [4352, 4449] else [c]) s)),
      category = (\<lambda>c. if c = 769 then ''Mn'' else ''Lo''),
      is_control = (\<lambda>c. c < 32)\<rparr>"

definition example_tokenizer :: tokenizer where
  "example_tokenizer =
     \<lparr>cls_token_id = 101, sep_token_id = 102, pad_token_id = 0, pad_token_type_id = 3,
      padding_side = ''right'', unk_token = ustr ''<unk>'', do_lower_case = True,
      basic_tokenize = (\<lambda>t. if t = ustr ''Hi zzz'' then [ustr ''hi'', ustr ''zzz'']
                             else if t = [67, 97, 102, 233] then [ustr ''cafe'']
                             else map (\<lambda>c. [c]) t),
      wordpiece_tokenize = (\<lambda>w. if w = ustr ''hi'' then [ustr ''h'', ustr ''##i'']
                                 else if w = ustr ''zzz'' then [ustr ''<unk>'']
                                 else [w]),
      token_to_id = (\<lambda>t. int (sum_list t)),
      build_inputs_with_special_tokens = bert_build_inputs_with_special_tokens 101 102,
      encode = (\<lambda>ids pair_ids cfg. Inl ValueError)\<rparr>"


definition example_config :: "int \<Rightarrow> int \<Rightarrow> config" where
  "example_config n s =
     \<lparr>max_seq_len = n, pad_to_max_seq_len = True, stride = s,
      truncation_strategy = ''longest_first'', return_position_ids = True,
      return_token_type_ids = True, return_attention_mask = True, return_length = True,
      return_overflowing_tokens = False, return_special_tokens_mask = True\<rparr>"

section \<open>Token type ids\<close>

text \<open>
  C10: for every \<open>token_ids_0\<close> and optional \<open>token_ids_1\<close>,
  \<^verbatim>\<open>create_token_type_ids_from_sequences\<close> gives the leading CLS position the type id
  2 (\<open>cls_token_type_id\<close>), not 0: the result is \<open>[2]\<close> followed by
  \<open>len(token_ids_0) + 1\<close> zeros, and then \<open>len(token_ids_1) + 1\<close> ones when the second
  sequence is present; its length is one CLS slot plus one SEP slot per sequence plus
  the sequence lengths.
\<close>

theorem create_token_type_ids_cls_type_two:
  "cls_token_type_id = 2
   \<and> create_token_type_ids_from_sequences tk token_ids_0 None
       = [2] @ replicate (length token_ids_0 + 1) 0
   \<and> create_token_type_ids_from_sequences tk token_ids_0 (Some token_ids_1)
       = [2] @ replicate (length token_ids_0 + 1) 0 @ replicate (length token_ids_1 + 1) 1
   \<and> length (create_token_type_ids_from_sequences tk token_ids_0 None)
       = 1 + (length token_ids_0 + 1)
   \<and> length (create_token_type_ids_from_sequences tk token_ids_0 (Some token_ids_1))
       = 1 + (length token_ids_0 + 1) + (length token_ids_1 + 1)"
  by (simp add: create_token_type_ids_from_sequences_def cls_token_type_id_def)

section \<open>Truncation\<close>

subsection \<open>Python reads on lists\<close>

lemma py_index_last: "xs \<noteq> [] \<Longrightarrow> py_index xs (- 1) = Inr (last xs)"
  by (cases xs rule: rev_cases) (auto simp: py_index_def nth_append)

lemma py_index_nil: "py_index [] i = Inl IndexError"
  by (simp add: py_index_def)

lemma py_slice_to_butlast: "py_slice_to xs (- 1) = butlast xs"
  by (simp add: py_slice_to_def butlast_conv_take nat_diff_distrib')

subsection \<open>The strategy \<^verbatim>\<open>only_first\<close>\<close>

text \<open>
  C5: for \<open>num_tokens_to_remove > 0\<close> and a stride that asks for a positive number
  \<open>stride + num_tokens_to_remove\<close> of overflow tokens (every stride that is a number
  of tokens does), \<^verbatim>\<open>truncate_sequences\<close> with \<^verbatim>\<open>only_first\<close> fails its assertion
  when \<open>len(ids) \<le> num_tokens_to_remove\<close>; otherwise it removes exactly
  \<open>num_tokens_to_remove\<close> tokens from the end of \<open>ids\<close>, leaves \<open>pair_ids\<close> as it is,
  and returns as overflow the last \<open>stride + num_tokens_to_remove\<close> tokens of the
  original \<open>ids\<close> (all of them when there are fewer).
\<close>

theorem truncate_only_first:
  assumes "0 < n" and "0 < strd + n"
  shows "truncate_sequences ids pair_ids n ''only_first'' strd =
     (if int (length ids) \<le> n then Inl AssertionError
      else Inr (take (length ids - nat n) ids, pair_ids, drop (length ids - nat (strd + n)) ids))"
  using assms
  by (auto simp: truncate_sequences_def py_slice_from_def py_slice_to_def Let_def min_def
        nat_diff_distrib' nat_add_distrib)

theorem truncate_only_first_witness:
  "(0::int) < 2 \<and> (0::int) < 1 + 2
   \<and> truncate_sequences [1, 2, 3, 4, 5] None 2 ''only_first'' 1 = Inr ([1, 2, 3], None, [3, 4, 5])
   \<and> truncate_sequences [1, 2] (Some [7]) 2 ''only_first'' 1 = Inl AssertionError"
  using truncate_only_first [of 2 1 "[1, 2, 3, 4, 5]" None]
    truncate_only_first [of 2 1 "[1, 2]" "Some [7]"]
  by simp

subsection \<open>The strategy \<^verbatim>\<open>longest_first\<close>: the loops against the removal step\<close>

lemma ge_step:
  "Suc k \<le> length ids + pair_len pair_ids \<Longrightarrow>
   longest_first_loop_ge (Suc k) ids pair_ids ov =
     (case longest_first_step True (ids, pair_ids, ov) of (a, b, c) \<Rightarrow> longest_first_loop_ge k a b c)"
  by (cases pair_ids; cases "ids = []")
     (auto simp: longest_first_step_def pair_len_def py_index_last py_slice_to_butlast)

lemma gt_step:
  "longest_first_loop_gt (Suc k) ids (Some p) ov =
     (case longest_first_step False (ids, Some p, ov) of (a, b, c) \<Rightarrow> longest_first_loop_gt k a b c)"
  by (cases "ids = []")
     (auto simp: longest_first_step_def pair_len_def py_index_last py_slice_to_butlast)


lemma step_props:
  assumes "0 < length ids + pair_len pair_ids"
    and "longest_first_step t (ids, pair_ids, ov) = (a, b, c)"
  shows "length a + pair_len b + 1 = length ids + pair_len pair_ids"
    and "a @ c = ids @ ov"
    and "b = None \<longleftrightarrow> pair_ids = None"
proof -
  have len: "xs \<noteq> [] \<Longrightarrow> Suc (length xs - Suc 0) = length xs" for xs :: "int list"
    by (cases xs) auto
  show "length a + pair_len b + 1 = length ids + pair_len pair_ids"
  proof (cases pair_ids)
    case None
    with assms show ?thesis
      by (auto simp: longest_first_step_def pair_len_def len)
  next
    case (Some p)
    with assms show ?thesis
      by (cases "ids = []"; cases "p = []")
         (auto simp: longest_first_step_def pair_len_def len split: if_splits)
  qed
  show "a @ c = ids @ ov"
  proof (cases pair_ids)
    case None
    with assms show ?thesis
      by (auto simp: longest_first_step_def pair_len_def)
  next
    case (Some p)
    with assms show ?thesis
      by (cases "ids = []"; cases "p = []")
         (auto simp: longest_first_step_def pair_len_def split: if_splits)
  qed
  show "b = None \<longleftrightarrow> pair_ids = None"
    using assms(2) by (auto simp: longest_first_step_def split: option.splits if_splits)
qed

lemma iter_props:
  assumes "k \<le> length ids + pair_len pair_ids"
    and "(longest_first_step t ^^ k) (ids, pair_ids, ov) = (a, b, c)"
  shows "length a + pair_len b + k = length ids + pair_len pair_ids \<and> a @ c = ids @ ov
         \<and> (b = None \<longleftrightarrow> pair_ids = None)"
  using assms
proof (induction k arbitrary: ids pair_ids ov)
  case 0
  then show ?case by simp
next
  case (Suc k)
  obtain a' b' c' where st: "longest_first_step t (ids, pair_ids, ov) = (a', b', c')"
    by (cases "longest_first_step t (ids, pair_ids, ov)") auto
  from Suc.prems(1) have pos: "0 < length ids + pair_len pair_ids" by linarith
  note sp = step_props[OF pos st]
  from Suc.prems(2) st have it: "(longest_first_step t ^^ k) (a', b', c') = (a, b, c)"
    by (simp add: funpow_swap1)
  from sp(1) Suc.prems(1) have "k \<le> length a' + pair_len b'" by simp
  from Suc.IH[OF this it] sp show ?case by simp
qed

lemma ge_iter:
  "k \<le> length ids + pair_len pair_ids \<Longrightarrow>
   longest_first_loop_ge k ids pair_ids ov = Inr ((longest_first_step True ^^ k) (ids, pair_ids, ov))"
proof (induction k arbitrary: ids pair_ids ov)
  case 0
  then show ?case by simp
next
  case (Suc k)
  obtain a' b' c' where st: "longest_first_step True (ids, pair_ids, ov) = (a', b', c')"
    by (cases "longest_first_step True (ids, pair_ids, ov)") auto
  from Suc.prems have pos: "0 < length ids + pair_len pair_ids" by linarith
  from step_props(1)[OF pos st] Suc.prems have "k \<le> length a' + pair_len b'" by simp
  from Suc.IH[OF this] have "longest_first_loop_ge k a' b' c' = Inr ((longest_first_step True ^^ k) (a', b', c'))" .
  with st Suc.prems show ?case
    by (simp only: ge_step funpow_Suc_right o_apply) simp
qed

lemma gt_iter:
  "k \<le> length ids + length p \<Longrightarrow>
   longest_first_loop_gt k ids (Some p) ov = Inr ((longest_first_step False ^^ k) (ids, Some p, ov))"
proof (induction k arbitrary: ids p ov)
  case 0
  then show ?case by simp
next
  case (Suc k)
  obtain a' b' c' where st: "longest_first_step False (ids, Some p, ov) = (a', b', c')"
    by (cases "longest_first_step False (ids, Some p, ov)") auto
  from Suc.prems have pos: "0 < length ids + pair_len (Some p)" unfolding pair_len_def option.case by linarith
  note sp = step_props[OF pos st]
  from sp(3) obtain p' where b': "b' = Some p'" by auto
  from sp(1) Suc.prems b' have "k \<le> length a' + length p'" by (simp add: pair_len_def)
  from Suc.IH[OF this] have "longest_first_loop_gt k a' (Some p') c' = Inr ((longest_first_step False ^^ k) (a', Some p', c'))" .
  with st b' show ?case
    by (simp only: gt_step funpow_Suc_right o_apply) simp
qed

lemma lookback_some:
  "a \<noteq> [] \<Longrightarrow> 0 < strd \<Longrightarrow>
   py_slice_from a (- min (int (length a)) strd) = drop (length a - nat strd) a"
  by (auto simp: py_slice_from_def min_def nat_diff_distrib')

lemma lookback_none: "a = [] \<or> strd \<le> 0 \<Longrightarrow> drop (length a - nat strd) a = []"
  by auto

lemma truncate_longest_first_iter:
  assumes "0 < n" and "n \<le> int (length ids) + int (pair_len pair_ids)"
    and "(longest_first_step (case pair_ids of None \<Rightarrow> True | Some p \<Rightarrow> length ids \<le> length p) ^^ nat n)
            (ids, pair_ids, []) = (a, b, c)"
  shows "truncate_sequences ids pair_ids n ''longest_first'' strd = Inr (a, b, drop (length a - nat strd) a @ c)"
proof (cases "case pair_ids of None \<Rightarrow> True | Some p \<Rightarrow> length ids \<le> length p")
  case True
  from assms(2) have k: "nat n \<le> length ids + pair_len pair_ids" by linarith
  from True assms(3) have "(longest_first_step True ^^ nat n) (ids, pair_ids, []) = (a, b, c)" by simp
  with ge_iter[OF k, of "[]"] have "longest_first_loop_ge (nat n) ids pair_ids [] = Inr (a, b, c)" by simp
  with True assms(1) show ?thesis
    by (auto simp: truncate_sequences_def Let_def lookback_some lookback_none)
next
  case False
  then obtain p where p: "pair_ids = Some p" and gt: "\<not> length ids \<le> length p"
    by (cases pair_ids) auto
  from assms(2) p have k: "nat n \<le> length ids + length p" by (simp add: pair_len_def)
  from gt p assms(3) have "(longest_first_step False ^^ nat n) (ids, Some p, []) = (a, b, c)" by simp
  with gt_iter[OF k, of "[]"] have "longest_first_loop_gt (nat n) ids (Some p) [] = Inr (a, b, c)" by simp
  with gt p assms(1) show ?thesis
    by (auto simp: truncate_sequences_def Let_def lookback_some lookback_none)
qed

text \<open>
  C6: for \<open>0 < num_tokens_to_remove \<le> len(ids) + len(pair_ids)\<close>,
  \<^verbatim>\<open>truncate_sequences\<close> with \<^verbatim>\<open>longest_first\<close> returns, and the kept sequences
  satisfy \<open>len(kept_ids) + len(kept_pair_ids) + num_tokens_to_remove =
  len(ids) + len(pair_ids)\<close>, an absent pair counting as length 0.
\<close>

theorem truncate_longest_first_conservation:
  assumes "0 < n" and "n \<le> int (length ids) + int (pair_len pair_ids)"
  shows "\<exists>ids' pair_ids' overflow.
           truncate_sequences ids pair_ids n ''longest_first'' strd = Inr (ids', pair_ids', overflow)
           \<and> int (length ids') + int (pair_len pair_ids') + n
               = int (length ids) + int (pair_len pair_ids)"
proof -
  let ?t = "case pair_ids of None \<Rightarrow> True | Some p \<Rightarrow> length ids \<le> length p"
  obtain a b c where it: "(longest_first_step ?t ^^ nat n) (ids, pair_ids, []) = (a, b, c)"
    by (cases "(longest_first_step ?t ^^ nat n) (ids, pair_ids, [])") auto
  from assms(2) have k: "nat n \<le> length ids + pair_len pair_ids" by linarith
  from iter_props[OF k it] assms(1)
  have "int (length a) + int (pair_len b) + n = int (length ids) + int (pair_len pair_ids)"
    by linarith
  with truncate_longest_first_iter[OF assms it] show ?thesis by blast
qed

theorem truncate_longest_first_conservation_witness:
  "(0::int) < 3 \<and> (3::int) \<le> int (length [1, 2, 3 :: int]) + int (pair_len (Some [4, 5, 6, 7]))
   \<and> (\<exists>ids' pair_ids' overflow.
         truncate_sequences [1, 2, 3] (Some [4, 5, 6, 7]) 3 ''longest_first'' 0
           = Inr (ids', pair_ids', overflow)
         \<and> int (length ids') + int (pair_len pair_ids') + 3
             = int (length [1, 2, 3 :: int]) + int (pair_len (Some [4, 5, 6, 7])))"
  using truncate_longest_first_conservation [of 3 "[1, 2, 3]" "Some [4, 5, 6, 7]" 0]
  by (simp add: pair_len_def)

text \<open>
  The claim C2 as the specification states it breaks every tie toward \<open>ids\<close>. The
  code does so only in its first loop. With three ids against a pair of two and two
  tokens to remove, the second loop runs: the first round shortens \<open>ids\<close>, the second
  round meets equal lengths and shortens the pair, where the specification's step
  shortens \<open>ids\<close> again.
\<close>

theorem truncate_longest_first_tie_counterexample:
  "truncate_sequences [1, 2, 3] (Some [4, 5]) 2 ''longest_first'' 0 = Inr ([1, 2], Some [4], [3])
   \<and> (longest_first_step True ^^ 2) ([1, 2, 3], Some [4, 5], []) = ([1], Some [4, 5], [2, 3])"
  by (simp add: truncate_sequences_def longest_first_step_def py_index_def py_slice_to_def
        py_slice_from_def numeral_2_eq_2)

text \<open>
  C2, amended: for \<open>0 < num_tokens_to_remove \<le> len(ids) + len(pair_ids)\<close>,
  \<^verbatim>\<open>truncate_sequences\<close> with \<^verbatim>\<open>longest_first\<close> performs
  \<open>num_tokens_to_remove\<close> removal steps, each taking one token from the end of
  whichever of \<open>ids\<close> and \<open>pair_ids\<close> is currently longer, from \<open>ids\<close> when the pair is
  absent. At equal lengths the step takes from \<open>ids\<close> if the call started with
  \<open>len(ids) \<le> len(pair_ids)\<close>, and from \<open>pair_ids\<close> if it started with
  \<open>len(ids) > len(pair_ids)\<close>. Only the tokens removed from \<open>ids\<close> are collected, in
  their original order, at the end of the overflow list, after the last
  \<open>stride\<close> tokens of the kept \<open>ids\<close>.
\<close>

theorem truncate_longest_first_steps:
  assumes "0 < n" and "n \<le> int (length ids) + int (pair_len pair_ids)"
  shows "\<exists>ids' pair_ids' removed.
           (longest_first_step (case pair_ids of None \<Rightarrow> True | Some p \<Rightarrow> length ids \<le> length p)
              ^^ nat n) (ids, pair_ids, []) = (ids', pair_ids', removed)
           \<and> truncate_sequences ids pair_ids n ''longest_first'' strd
               = Inr (ids', pair_ids', drop (length ids' - nat strd) ids' @ removed)
           \<and> ids' @ removed = ids
           \<and> length ids' + pair_len pair_ids' + nat n = length ids + pair_len pair_ids"
proof -
  let ?t = "case pair_ids of None \<Rightarrow> True | Some p \<Rightarrow> length ids \<le> length p"
  obtain a b c where it: "(longest_first_step ?t ^^ nat n) (ids, pair_ids, []) = (a, b, c)"
    by (cases "(longest_first_step ?t ^^ nat n) (ids, pair_ids, [])") auto
  from assms(2) have k: "nat n \<le> length ids + pair_len pair_ids" by linarith
  from iter_props[OF k it] truncate_longest_first_iter[OF assms it] it
  show ?thesis by simp
qed

theorem truncate_longest_first_steps_witness:
  "(0::int) < 3 \<and> (3::int) \<le> int (length [1, 2, 3, 4 :: int]) + int (pair_len (Some [5, 6]))
   \<and> truncate_sequences [1, 2, 3, 4] (Some [5, 6]) 3 ''longest_first'' 1
       = Inr ([1, 2], Some [5], [2, 3, 4])"
  using truncate_longest_first_steps [of 3 "[1, 2, 3, 4]" "Some [5, 6]" 1]
  by (simp add: pair_len_def longest_first_step_def numeral_3_eq_3)

section \<open>Offset rematching\<close>

subsection \<open>The token sequence\<close>

lemma foldl_append_each: "foldl (\<lambda>acc x. acc @ [f x]) acc xs = acc @ map f xs"
  by (induction xs arbitrary: acc) auto

lemma foldl_append_blocks:
  "foldl (\<lambda>acc t. foldl (\<lambda>acc x. acc @ [f t x]) acc (g t)) acc ts
     = acc @ concat (map (\<lambda>t. map (f t) (g t)) ts)"
  by (induction ts arbitrary: acc) (auto simp: foldl_append_each)

lemma tokenize_private_concat:
  "tokenize_private tk text = concat (map (wordpiece_tokenize tk) (basic_tokenize tk text))"
  unfolding tokenize_private_def
  by (simp add: foldl_append_blocks[where f = "\<lambda>t x. x"])

lemma custom_tokenize_concat:
  "custom_tokenize tk text =
     concat (map (\<lambda>token. map (\<lambda>sub_token. if sub_token \<noteq> unk_token tk then sub_token else token)
                              (wordpiece_tokenize tk token))
               (basic_tokenize tk text))"
  unfolding custom_tokenize_def
  by (simp add: foldl_append_blocks[where
        f = "\<lambda>token sub_token. if sub_token \<noteq> unk_token tk then sub_token else token"])

lemma map2_replicate: "map2 h xs (replicate (length xs) t) = map (\<lambda>x. h x t) xs"
  by (induction xs) auto

lemma map2_blocks:
  "map2 h (concat (map g ts)) (concat (map (\<lambda>t. replicate (length (g t)) t) ts))
     = concat (map (\<lambda>t. map (\<lambda>x. h x t) (g t)) ts)"
  by (induction ts) (auto simp: map2_replicate)

text \<open>
  C7: the token sequence that \<^verbatim>\<open>rematch\<close> hands to its search loop is the
  segmenter's output with each unknown marker replaced by the coarse word of the basic
  tokenizer at that position, every other position carrying the segmenter's subword
  unchanged (the search loop then stems each token).
\<close>

theorem custom_tokenize_replaces_unknown:
  "custom_tokenize tk text
     = map2 (\<lambda>sub_token token. if sub_token = unk_token tk then token else sub_token)
         (tokenize_private tk text) (coarse_words tk text)
   \<and> length (coarse_words tk text) = length (tokenize_private tk text)
   \<and> length (custom_tokenize tk text) = length (tokenize_private tk text)
   \<and> (\<forall>i < length (tokenize_private tk text).
         custom_tokenize tk text ! i
           = (if tokenize_private tk text ! i = unk_token tk then coarse_words tk text ! i
              else tokenize_private tk text ! i))
   \<and> rematch tk env text
       = token_mapping_loop (fst (rematch_char_mapping tk env text))
           (snd (rematch_char_mapping tk env text))
           (map2 (\<lambda>sub_token token. if sub_token = unk_token tk then token else sub_token)
              (tokenize_private tk text) (coarse_words tk text)) 0 []"
proof -
  let ?h = "\<lambda>sub_token token. if sub_token = unk_token tk then token else sub_token"
  have eq: "custom_tokenize tk text = map2 ?h (tokenize_private tk text) (coarse_words tk text)"
    unfolding custom_tokenize_concat tokenize_private_concat coarse_words_def map2_blocks
    by (rule arg_cong[where f = concat]) auto
  have len: "length (coarse_words tk text) = length (tokenize_private tk text)"
    by (simp add: coarse_words_def tokenize_private_concat length_concat o_def)
  have len2: "length (custom_tokenize tk text) = length (tokenize_private tk text)"
    by (simp add: eq len)
  have nth: "\<forall>i < length (tokenize_private tk text).
         custom_tokenize tk text ! i
           = (if tokenize_private tk text ! i = unk_token tk then coarse_words tk text ! i
              else tokenize_private tk text ! i)"
    by (simp add: eq len)
  have rm: "rematch tk env text
       = token_mapping_loop (fst (rematch_char_mapping tk env text))
           (snd (rematch_char_mapping tk env text)) (custom_tokenize tk text) 0 []"
    by (simp add: rematch_def Let_def split_beta)
  show ?thesis using eq len len2 nth rm by simp
qed


theorem custom_tokenize_replaces_unknown_witness:
  "tokenize_private example_tokenizer (ustr ''Hi zzz'') = [ustr ''h'', ustr ''##i'', ustr ''<unk>'']
   \<and> coarse_words example_tokenizer (ustr ''Hi zzz'') = [ustr ''hi'', ustr ''hi'', ustr ''zzz'']
   \<and> (2::nat) < length (tokenize_private example_tokenizer (ustr ''Hi zzz''))
   \<and> custom_tokenize example_tokenizer (ustr ''Hi zzz'') ! 2 = ustr ''zzz''
   \<and> custom_tokenize example_tokenizer (ustr ''Hi zzz'') ! 1 = ustr ''##i''"
  using custom_tokenize_replaces_unknown [of example_tokenizer "ustr ''Hi zzz''" example_env]
  by (simp add: tokenize_private_def coarse_words_def example_tokenizer_def ustr_def)


subsection \<open>The character mapping\<close>



lemma char_mapping_loop_snoc:
  "char_mapping_loop tk env i (text @ [c]) (nt, cm) =
     (nt' @ normalize_char tk env c, cm' @ replicate (length (normalize_char tk env c)) (i + length text))"
  if "char_mapping_loop tk env i text (nt, cm) = (nt', cm')"
  using that
  by (induction "text" arbitrary: i nt cm) (auto simp: Let_def)

lemma rematch_char_mapping_snoc:
  "rematch_char_mapping tk env (text @ [c]) =
     (fst (rematch_char_mapping tk env text) @ normalize_char tk env c,
      snd (rematch_char_mapping tk env text) @ replicate (length (normalize_char tk env c)) (length text))"
  unfolding rematch_char_mapping_def
  using char_mapping_loop_snoc[of tk env 0 "text" "[]" "[]"]
  by (cases "char_mapping_loop tk env 0 text ([], [])") auto

lemma char_mapping_inv:
  "fst (rematch_char_mapping tk env src) = concat (map (normalize_char tk env) src)
   \<and> length (snd (rematch_char_mapping tk env src)) = length (fst (rematch_char_mapping tk env src))
   \<and> sorted (snd (rematch_char_mapping tk env src))
   \<and> (\<forall>x \<in> set (snd (rematch_char_mapping tk env src)). x < length src)
   \<and> (\<forall>k < length (fst (rematch_char_mapping tk env src)).
        \<exists>j < length (normalize_char tk env (src ! (snd (rematch_char_mapping tk env src) ! k))).
          k = length (concat (map (normalize_char tk env)
                 (take (snd (rematch_char_mapping tk env src) ! k) src))) + j
          \<and> fst (rematch_char_mapping tk env src) ! k
              = normalize_char tk env (src ! (snd (rematch_char_mapping tk env src) ! k)) ! j)"
proof (induction src rule: rev_induct)
  case Nil
  then show ?case by (simp add: rematch_char_mapping_def)
next
  case (snoc c src)
  let ?N = "normalize_char tk env"
  let ?nt = "fst (rematch_char_mapping tk env src)"
  let ?cm = "snd (rematch_char_mapping tk env src)"
  let ?nt' = "fst (rematch_char_mapping tk env (src @ [c]))"
  let ?cm' = "snd (rematch_char_mapping tk env (src @ [c]))"
  from snoc have nt: "?nt = concat (map ?N src)" and len: "length ?cm = length ?nt"
    and srt: "sorted ?cm" and bnd: "\<forall>x \<in> set ?cm. x < length src"
    and ent: "\<forall>k < length ?nt. \<exists>j < length (?N (src ! (?cm ! k))).
          k = length (concat (map ?N (take (?cm ! k) src))) + j \<and> ?nt ! k = ?N (src ! (?cm ! k)) ! j"
    by blast+
  have nt': "?nt' = ?nt @ ?N c" and cm': "?cm' = ?cm @ replicate (length (?N c)) (length src)"
    by (simp_all add: rematch_char_mapping_snoc)
  have 1: "?nt' = concat (map ?N (src @ [c]))" by (simp add: nt' nt)
  have 2: "length ?cm' = length ?nt'" by (simp add: nt' cm' len)
  have 3: "sorted ?cm'"
    unfolding cm' using srt bnd by (auto simp: sorted_append dest: less_imp_le)
  have 4: "\<forall>x \<in> set ?cm'. x < length (src @ [c])"
    unfolding cm' using bnd by (auto simp: less_Suc_eq)
  have 5: "\<exists>j < length (?N ((src @ [c]) ! (?cm' ! k))).
          k = length (concat (map ?N (take (?cm' ! k) (src @ [c])))) + j
          \<and> ?nt' ! k = ?N ((src @ [c]) ! (?cm' ! k)) ! j" if k: "k < length ?nt'" for k
  proof (cases "k < length ?nt")
    case True
    with len have kc: "k < length ?cm" by simp
    with bnd have lt: "?cm ! k < length src" by simp
    from ent True obtain j where j: "j < length (?N (src ! (?cm ! k)))"
      "k = length (concat (map ?N (take (?cm ! k) src))) + j" "?nt ! k = ?N (src ! (?cm ! k)) ! j"
      by blast
    have a: "?cm' ! k = ?cm ! k" by (simp add: cm' nth_append kc)
    have b: "?nt' ! k = ?nt ! k" by (simp add: nt' nth_append True)
    show ?thesis unfolding a b using j lt by (auto simp: nth_append)
  next
    case False
    with k have j: "k - length ?nt < length (?N c)" by (simp add: nt')
    from False len have a: "?cm' ! k = length src"
      using j by (simp add: cm' nth_append)
    have b: "?nt' ! k = ?N c ! (k - length ?nt)" using False by (simp add: nt' nth_append)
    show ?thesis unfolding a b using j False nt
      by (intro exI[of _ "k - length ?nt"]) simp
  qed
  from 1 2 3 4 5 show ?case by blast
qed

text \<open>
  C8: the \<open>char_mapping\<close> built by \<^verbatim>\<open>rematch\<close> has one entry per character of the
  normalized text; entry \<open>k\<close> is the index of the character of the original text whose
  normalisation produced normalized character \<open>k\<close>; and the array never decreases.
\<close>

theorem char_mapping_invariant:
  "length (snd (rematch_char_mapping tk env src)) = length (fst (rematch_char_mapping tk env src))
   \<and> fst (rematch_char_mapping tk env src) = concat (map (normalize_char tk env) src)
   \<and> sorted (snd (rematch_char_mapping tk env src))
   \<and> (\<forall>k < length (fst (rematch_char_mapping tk env src)).
        snd (rematch_char_mapping tk env src) ! k < length src
        \<and> (\<exists>j < length (normalize_char tk env (src ! (snd (rematch_char_mapping tk env src) ! k))).
              k = length (concat (map (normalize_char tk env)
                     (take (snd (rematch_char_mapping tk env src) ! k) src))) + j
              \<and> fst (rematch_char_mapping tk env src) ! k
                  = normalize_char tk env (src ! (snd (rematch_char_mapping tk env src) ! k)) ! j))"
proof -
  note inv = char_mapping_inv[of tk env src]
  have bound: "snd (rematch_char_mapping tk env src) ! k < length src"
    if "k < length (fst (rematch_char_mapping tk env src))" for k
  proof -
    from inv that have "k < length (snd (rematch_char_mapping tk env src))" by simp
    then have "snd (rematch_char_mapping tk env src) ! k \<in> set (snd (rematch_char_mapping tk env src))"
      by (rule nth_mem)
    with inv show ?thesis by blast
  qed
  from inv have ent: "\<forall>k < length (fst (rematch_char_mapping tk env src)).
        \<exists>j < length (normalize_char tk env (src ! (snd (rematch_char_mapping tk env src) ! k))).
          k = length (concat (map (normalize_char tk env)
                 (take (snd (rematch_char_mapping tk env src) ! k) src))) + j
          \<and> fst (rematch_char_mapping tk env src) ! k
              = normalize_char tk env (src ! (snd (rematch_char_mapping tk env src) ! k)) ! j"
    by (elim conjE)
  show ?thesis
    apply (intro conjI allI impI)
    using inv apply blast
    using inv apply blast
    using inv apply blast
    using bound apply blast
    using ent apply blast
    done
qed

lemma example_char_mapping:
  "rematch_char_mapping example_tokenizer example_env [67, 0, 44032, 233]
     = ([99, 4352, 4449, 101], [0, 2, 2, 3])"
  by (simp add: rematch_char_mapping_def normalize_char_def example_tokenizer_def example_env_def)

theorem char_mapping_invariant_witness:
  "rematch_char_mapping example_tokenizer example_env [67, 0, 44032, 233]
     = ([99, 4352, 4449, 101], [0, 2, 2, 3])
   \<and> sorted (snd (rematch_char_mapping example_tokenizer example_env [67, 0, 44032, 233]))
   \<and> (2::nat) < length (fst (rematch_char_mapping example_tokenizer example_env [67, 0, 44032, 233]))
   \<and> snd (rematch_char_mapping example_tokenizer example_env [67, 0, 44032, 233]) ! 2
       < length [67, 0, 44032, 233 :: nat]"
proof -
  have two: "(2::nat) < length (fst (rematch_char_mapping example_tokenizer example_env [67, 0, 44032, 233]))"
    by (simp add: example_char_mapping)
  from char_mapping_invariant [of example_tokenizer example_env "[67, 0, 44032, 233]"] two example_char_mapping
  show ?thesis by blast
qed

section \<open>The sliding-window loop\<close>

subsection \<open>One round\<close>

lemma get_special_tokens_mask_pair:
  "get_special_tokens_mask tk ids (Some p) False
     = Inr ([1] @ replicate (length ids) 0 @ [1] @ replicate (length p) 0 @ [1])"
  by (simp add: get_special_tokens_mask_def)

lemma pad_keeps_sample: "overflow_to_sample (pad_encoded_inputs tk cfg b e) = overflow_to_sample e"
  by (simp add: pad_encoded_inputs_def Let_def)

lemma pad_keeps_positions: "position_ids (pad_encoded_inputs tk cfg b e) = position_ids e"
  by (simp add: pad_encoded_inputs_def Let_def)

lemma pad_input_ids:
  "input_ids (pad_encoded_inputs tk cfg b e) =
     (if b \<and> padding_side tk = ''right''
      then input_ids e @ replicate (nat (max_seq_len cfg - int (length (input_ids e)))) (pad_token_id tk)
      else if b \<and> padding_side tk = ''left''
      then replicate (nat (max_seq_len cfg - int (length (input_ids e)))) (pad_token_id tk) @ input_ids e
      else input_ids e)"
  by (simp add: pad_encoded_inputs_def Let_def)

lemma pad_equal_lengths:
  assumes "equal_field_lengths e"
    and "\<not> return_token_type_ids cfg \<longrightarrow> token_type_ids e = None"
    and "\<not> return_special_tokens_mask cfg \<longrightarrow> special_tokens_mask e = None"
    and "attention_mask e = None" and "position_ids e = None"
  shows "equal_field_lengths (pad_encoded_inputs tk cfg b e)"
  using assms
  by (cases "token_type_ids e"; cases "special_tokens_mask e"; cases "offset_mapping e")
     (simp_all add: pad_encoded_inputs_def Let_def equal_field_lengths_def sequence_field_lengths_def)

lemma pad_offset_mapping:
  assumes "offset_mapping e = Some om" and "length om = length (input_ids e)"
  shows "\<exists>om'. offset_mapping (pad_encoded_inputs tk cfg b e) = Some om'
           \<and> length om' = length (input_ids (pad_encoded_inputs tk cfg b e))"
  using assms
  by (simp add: pad_encoded_inputs_def Let_def)


lemma encode_window_fits:
  assumes "int (length (build_inputs_with_special_tokens tk ids (Some pair_ids))) \<le> max_seq_len cfg"
  shows "\<exists>w. encode_window tk cfg example_id ids mapping pair_ids pair_mapping = Inr w"
  using assms
  by (simp add: encode_window_def get_special_tokens_mask_pair Let_def)

lemma encode_window_overflows:
  assumes "\<not> int (length (build_inputs_with_special_tokens tk ids (Some pair_ids))) \<le> max_seq_len cfg"
  shows "encode_window tk cfg example_id ids mapping pair_ids pair_mapping = Inl AssertionError"
  using assms
  by (simp add: encode_window_def get_special_tokens_mask_pair Let_def)

lemma encode_window_Inr_fits:
  assumes "encode_window tk cfg example_id ids mapping pair_ids pair_mapping = Inr w"
  shows "int (length (build_inputs_with_special_tokens tk ids (Some pair_ids))) \<le> max_seq_len cfg"
proof (rule ccontr)
  assume "\<not> ?thesis"
  from encode_window_overflows[OF this] assms show False by simp
qed

lemma encode_window_sample:
  assumes "encode_window tk cfg example_id ids mapping pair_ids pair_mapping = Inr w"
  shows "overflow_to_sample w = Some example_id"
proof -
  note fits = encode_window_Inr_fits[OF assms]
  have "overflow_to_sample (projr (encode_window tk cfg example_id ids mapping pair_ids pair_mapping))
          = Some example_id"
    using fits by (simp add: encode_window_def get_special_tokens_mask_pair Let_def)
  with assms show ?thesis by simp
qed

lemma encode_window_input_ids:
  assumes "encode_window tk cfg example_id ids mapping pair_ids pair_mapping = Inr w"
  shows "\<exists>pre post. input_ids w = pre @ build_inputs_with_special_tokens tk ids (Some pair_ids) @ post
           \<and> set (pre @ post) \<subseteq> {pad_token_id tk}"
proof -
  let ?seq = "build_inputs_with_special_tokens tk ids (Some pair_ids)"
  let ?d = "nat (max_seq_len cfg - int (length ?seq))"
  let ?b = "pad_to_max_seq_len cfg \<and> max_seq_len cfg \<noteq> 0 \<and> int (length ?seq) < max_seq_len cfg"
  note fits = encode_window_Inr_fits[OF assms]
  have "input_ids (projr (encode_window tk cfg example_id ids mapping pair_ids pair_mapping))
          = (if ?b \<and> padding_side tk = ''right'' then ?seq @ replicate ?d (pad_token_id tk)
             else if ?b \<and> padding_side tk = ''left'' then replicate ?d (pad_token_id tk) @ ?seq
             else ?seq)"
    using fits by (simp add: encode_window_def get_special_tokens_mask_pair Let_def pad_input_ids)
  with assms consider "input_ids w = [] @ ?seq @ []"
      | "input_ids w = [] @ ?seq @ replicate ?d (pad_token_id tk)"
      | "input_ids w = replicate ?d (pad_token_id tk) @ ?seq @ []"
    by (auto split: if_splits)
  then show ?thesis
  proof cases
    case 1
    then show ?thesis by (intro exI[of _ "[]"]) auto
  next
    case 2
    then show ?thesis by (intro exI[of _ "[]"] exI[of _ "replicate ?d (pad_token_id tk)"]) auto
  next
    case 3
    then show ?thesis by (intro exI[of _ "replicate ?d (pad_token_id tk)"] exI[of _ "[]"]) auto
  qed
qed

lemma equal_field_lengths_positions:
  "equal_field_lengths e \<Longrightarrow>
   equal_field_lengths (e\<lparr>position_ids := Some (map int [0..<length (input_ids e)])\<rparr>)"
  by (simp add: equal_field_lengths_def sequence_field_lengths_def)

lemma equal_field_lengths_sample:
  "equal_field_lengths (e\<lparr>overflow_to_sample := x\<rparr>) = equal_field_lengths e"
  by (simp add: equal_field_lengths_def sequence_field_lengths_def)

lemma encode_window_equal_lengths:
  assumes enc: "encode_window tk cfg example_id ids mapping pair_ids pair_mapping = Inr w"
    and bld: "length (build_inputs_with_special_tokens tk ids (Some pair_ids))
                = length ids + length pair_ids + 3"
    and lm: "length mapping = length ids" and lp: "length pair_mapping = length pair_ids"
  shows "equal_field_lengths w
         \<and> (\<exists>om. offset_mapping w = Some om \<and> length om = length (input_ids w))"
proof -
  note fits = encode_window_Inr_fits[OF enc]
  let ?seq = "build_inputs_with_special_tokens tk ids (Some pair_ids)"
  define e0 where "e0 =
     \<lparr>input_ids = ?seq,
      token_type_ids = (if return_token_type_ids cfg
                        then Some (create_token_type_ids_from_sequences tk ids (Some pair_ids))
                        else None),
      special_tokens_mask = (if return_special_tokens_mask cfg
                             then Some ([1] @ replicate (length ids) 0 @ [1]
                                        @ replicate (length pair_ids) 0 @ [1])
                             else None),
      seq_len = (if return_length cfg then Some (int (length ?seq)) else None),
      offset_mapping = Some (build_offset_mapping_with_special_tokens mapping (Some pair_mapping)),
      attention_mask = None, position_ids = None, overflow_to_sample = None\<rparr>"
  define b where "b \<longleftrightarrow> pad_to_max_seq_len cfg \<and> max_seq_len cfg \<noteq> 0
      \<and> int (length ?seq) < max_seq_len cfg"
  define e1 where "e1 = pad_encoded_inputs tk cfg b e0"
  have w: "w = (if return_position_ids cfg
                then e1\<lparr>position_ids := Some (map int [0..<length (input_ids e1)])\<rparr>
                else e1)\<lparr>overflow_to_sample := Some example_id\<rparr>"
  proof -
    have "projr (encode_window tk cfg example_id ids mapping pair_ids pair_mapping)
            = (if return_position_ids cfg
               then e1\<lparr>position_ids := Some (map int [0..<length (input_ids e1)])\<rparr>
               else e1)\<lparr>overflow_to_sample := Some example_id\<rparr>"
      using fits
      by (simp add: encode_window_def get_special_tokens_mask_pair Let_def e0_def b_def e1_def)
    with enc show ?thesis by simp
  qed
  have e0: "equal_field_lengths e0"
    using bld lm lp
    by (simp add: e0_def equal_field_lengths_def sequence_field_lengths_def
        create_token_type_ids_from_sequences_def build_offset_mapping_with_special_tokens_def)
  have e1: "equal_field_lengths e1"
    unfolding e1_def
    by (rule pad_equal_lengths[OF e0]) (simp_all add: e0_def)
  have om0: "\<exists>om. offset_mapping e0 = Some om \<and> length om = length (input_ids e0)"
    using bld lm lp
    by (simp add: e0_def build_offset_mapping_with_special_tokens_def)
  then obtain om where "offset_mapping e0 = Some om" "length om = length (input_ids e0)" by blast
  from pad_offset_mapping[OF this]
  have om1: "\<exists>om'. offset_mapping e1 = Some om' \<and> length om' = length (input_ids e1)"
    by (simp add: e1_def)
  show ?thesis
    using e1 om1 by (simp add: w equal_field_lengths_positions equal_field_lengths_sample)
qed

subsection \<open>The number of rounds\<close>

lemma num_windows_step:
  assumes "m < L" and "0 < d"
  shows "num_windows m d L = Suc (num_windows m d (L - d))"
proof (cases "L - d \<le> m")
  case True
  with assms have "d * 1 \<le> L - m + d - 1" "L - m + d - 1 < d * Suc 1" by simp_all
  then have "(L - m + d - 1) div d = 1"
    by (rule div_nat_eqI)
  with True assms show ?thesis by (simp add: num_windows_def)
next
  case False
  define x where "x = L - m - 1"
  from False have e1: "L - m + d - 1 = x + d" and e2: "L - d - m + d - 1 = x"
    unfolding x_def by linarith+
  have "(x + d) div d = Suc (x div d)"
    using assms(2) by simp
  with False assms e1 e2 show ?thesis by (simp add: num_windows_def)
qed


lemma sliding_loop_windows:
  assumes fits: "\<forall>p. length p \<le> nat m \<longrightarrow>
             int (length (build_inputs_with_special_tokens tk first_ids (Some p))) \<le> max_seq_len cfg"
    and s: "0 < stride cfg" "stride cfg < m"
  shows "\<exists>ws. sliding_window_loop tk cfg eid first_ids tom m second_ids tpom acc = Some (Inr (acc @ ws))
           \<and> length ws = num_windows (nat m) (nat (m - stride cfg)) (length second_ids)
           \<and> (\<forall>k < length ws. \<exists>pm.
                 encode_window tk cfg eid first_ids tom
                   (take (nat m) (drop (k * nat (m - stride cfg)) second_ids)) pm = Inr (ws ! k))"
proof (induction "length second_ids" arbitrary: second_ids tpom acc rule: less_induct)
  case less
  let ?M = "nat m" and ?d = "nat (m - stride cfg)"
  from s have d: "0 < ?d" "?d < ?M" by linarith+
  show ?case
  proof (cases "int (length second_ids) \<le> m")
    case True
    then have len: "length second_ids \<le> ?M" by linarith
    with fits obtain w where w: "encode_window tk cfg eid first_ids tom second_ids tpom = Inr w"
      using encode_window_fits by blast
    have "sliding_window_loop tk cfg eid first_ids tom m second_ids tpom acc = Some (Inr (acc @ [w]))"
      by (subst sliding_window_loop.simps) (simp add: True w)
    moreover have "num_windows ?M ?d (length second_ids) = 1"
      using len by (simp add: num_windows_def)
    moreover have "encode_window tk cfg eid first_ids tom (take ?M (drop (0 * ?d) second_ids)) tpom = Inr w"
      using len w by simp
    ultimately show ?thesis
      by (intro exI[of _ "[w]"]) auto
  next
    case False
    with s have len: "?M < length second_ids" by linarith
    have slto: "py_slice_to second_ids m = take ?M second_ids"
      using s by (simp add: py_slice_to_def)
    have slfrom: "py_slice_from second_ids (m - stride cfg) = drop ?d second_ids"
      using s by (simp add: py_slice_from_def)
    have "length (take ?M second_ids) \<le> ?M" by simp
    with fits obtain w where
      w: "encode_window tk cfg eid first_ids tom (take ?M second_ids) (py_slice_to tpom m) = Inr w"
      using encode_window_fits by blast
    have shorter: "length (drop ?d second_ids) < length second_ids"
      using d len by simp
    from less[OF shorter, of "py_slice_from tpom (m - stride cfg)" "acc @ [w]"]
    obtain ws where ws:
      "sliding_window_loop tk cfg eid first_ids tom m (drop ?d second_ids)
         (py_slice_from tpom (m - stride cfg)) (acc @ [w]) = Some (Inr ((acc @ [w]) @ ws))"
      "length ws = num_windows ?M ?d (length (drop ?d second_ids))"
      "\<forall>k < length ws. \<exists>pm. encode_window tk cfg eid first_ids tom
           (take ?M (drop (k * ?d) (drop ?d second_ids))) pm = Inr (ws ! k)"
      by blast
    have run: "sliding_window_loop tk cfg eid first_ids tom m second_ids tpom acc
                 = Some (Inr (acc @ (w # ws)))"
      by (subst sliding_window_loop.simps) (simp add: False slto slfrom w ws(1))
    have cnt: "length (w # ws) = num_windows ?M ?d (length second_ids)"
      using num_windows_step[OF len d(1)] ws(2) by simp
    have win: "\<exists>pm. encode_window tk cfg eid first_ids tom
           (take ?M (drop (k * ?d) second_ids)) pm = Inr ((w # ws) ! k)" if "k < length (w # ws)" for k
    proof (cases k)
      case 0
      with w show ?thesis by auto
    next
      case (Suc j)
      with that have "j < length ws" by simp
      with ws(3) obtain pm where "encode_window tk cfg eid first_ids tom
           (take ?M (drop (j * ?d) (drop ?d second_ids))) pm = Inr (ws ! j)" by blast
      moreover have "drop (j * ?d) (drop ?d second_ids) = drop (k * ?d) second_ids"
        using Suc by (simp add: add.commute)
      ultimately show ?thesis using Suc by auto
    qed
    from run cnt win show ?thesis by blast
  qed
qed

lemma sliding_loop_forever:
  assumes fits: "int (length (build_inputs_with_special_tokens tk first_ids
                     (Some (py_slice_to second_ids m)))) \<le> max_seq_len cfg"
    and s: "stride cfg = m" and len: "m < int (length second_ids)"
  shows "sliding_window_loop tk cfg eid first_ids tom m second_ids tpom acc = None"
proof (rule ccontr)
  assume "sliding_window_loop tk cfg eid first_ids tom m second_ids tpom acc \<noteq> None"
  then obtain y where y: "sliding_window_loop tk cfg eid first_ids tom m second_ids tpom acc = Some y"
    by auto
  have "\<not> (int (length (build_inputs_with_special_tokens tk first_ids
                     (Some (py_slice_to second_ids m)))) \<le> max_seq_len cfg
            \<and> stride cfg = m \<and> m < int (length second_ids))"
    using y
  proof (induction rule: sliding_window_loop.raw_induct[rotated 1, consumes 1])
    case (1 loop tk cfg eid first_ids tom m second_ids tpom acc y)
    show ?case
    proof
      assume a: "int (length (build_inputs_with_special_tokens tk first_ids
                     (Some (py_slice_to second_ids m)))) \<le> max_seq_len cfg
            \<and> stride cfg = m \<and> m < int (length second_ids)"
      then obtain w where w: "encode_window tk cfg eid first_ids tom (py_slice_to second_ids m)
             (py_slice_to tpom m) = Inr w"
        using encode_window_fits by blast
      have same: "py_slice_from second_ids (m - stride cfg) = second_ids"
        using a by (simp add: py_slice_from_def)
      from 1(2) a w same have "loop tk cfg eid first_ids tom m second_ids
          (py_slice_from tpom (m - stride cfg)) (acc @ [w]) = Some y"
        by (simp add: Let_def)
      from 1(1)[OF this] a show False by simp
    qed
  qed
  with assms show False by simp
qed

lemma ceiling_div_nat:
  fixes a d :: nat
  assumes "0 < a" and "0 < d"
  shows "\<lceil>real a / real d\<rceil> = int ((a + d - 1) div d)"
proof -
  define q where "q = (a + d - 1) div d"
  have lo: "q * d \<le> a + d - 1" unfolding q_def by simp
  have "a + d - 1 < d + q * d"
    unfolding q_def by (rule dividend_less_div_times[OF assms(2)])
  with assms have up: "a \<le> q * d" by linarith
  from lo assms have lo': "q * d < a + d" by linarith
  have "real a \<le> real (q * d)"
    using up by (simp only: of_nat_le_iff)
  then have "real a \<le> real q * real d" by simp
  then have 1: "real a / real d \<le> of_int (int q)"
    using assms(2) by (simp add: pos_divide_le_eq)
  have "real (q * d) < real (a + d)"
    using lo' by (simp only: of_nat_less_iff)
  then have "(real q - 1) * real d < real a" by (simp add: algebra_simps)
  then have 2: "of_int (int q) - 1 < real a / real d"
    using assms(2) by (simp add: pos_less_divide_eq)
  from 2 1 show ?thesis unfolding q_def[symmetric] by (rule ceiling_unique)
qed


lemma num_windows_ceiling:
  assumes "m < L" and "0 < d"
  shows "int (num_windows m d L) = 1 + \<lceil>real (L - m) / real d\<rceil>"
proof -
  from assms have "0 < L - m" by simp
  from ceiling_div_nat[OF this assms(2)] assms show ?thesis
    by (simp add: num_windows_def)
qed

lemma num_windows_pos: "0 < num_windows m d L"
  by (simp add: num_windows_def)

lemma num_windows_full:
  assumes "0 < d" and "Suc k < num_windows m d L"
  shows "k * d + m < L"
proof -
  from assms(2) have gt: "m < L" by (auto simp: num_windows_def split: if_splits)
  define q where "q = (L - m + d - 1) div d"
  from assms(2) gt have "Suc k \<le> q" by (simp add: num_windows_def q_def)
  then have "Suc k * d \<le> q * d" by (rule mult_le_mono1)
  also have "q * d \<le> L - m + d - 1" unfolding q_def by simp
  finally have "k * d + d \<le> L - m + d - 1" by simp
  with gt assms(1) show ?thesis by linarith
qed

lemma num_windows_reaches:
  assumes "0 < d"
  shows "L \<le> (num_windows m d L - 1) * d + m"
proof (cases "L \<le> m")
  case True
  then show ?thesis by (simp add: num_windows_def)
next
  case False
  define q where "q = (L - m + d - 1) div d"
  have "L - m + d - 1 < d + q * d"
    unfolding q_def by (rule dividend_less_div_times[OF assms])
  with False assms have "L \<le> q * d + m" by linarith
  with False show ?thesis by (simp add: num_windows_def q_def)
qed

lemma example_layout:
  "length (build_inputs_with_special_tokens example_tokenizer a (Some p)) = length a + length p + 3"
  "num_special_tokens_to_add example_tokenizer True = 3"
  by (simp_all add: example_tokenizer_def bert_build_inputs_with_special_tokens_def
        num_special_tokens_to_add_def)

text \<open>
  C9: the \<^verbatim>\<open>while\<close> loop of \<^verbatim>\<open>batch_encode\<close>, entered with a positive stride and
  more than \<open>max_len_for_pair\<close> pair tokens, where
  \<open>max_len_for_pair = max_seq_len - len(first_ids) - overhead\<close> and the special tokens
  add the same overhead to every pair: when \<open>stride < max_len_for_pair\<close> it terminates
  and emits \<open>1 + ceil((len(second_ids) - max_len_for_pair) / (max_len_for_pair - stride))\<close>
  windows; when \<open>stride = max_len_for_pair\<close> a round leaves \<open>second_ids\<close> as it is and
  the loop does not terminate.
\<close>

theorem sliding_window_loop_termination:
  assumes layout: "\<forall>p. length (build_inputs_with_special_tokens tk first_ids (Some p))
                       = length first_ids + length p + num_special_tokens_to_add tk True"
    and m: "m = max_seq_len cfg - int (length first_ids) - int (num_special_tokens_to_add tk True)"
    and entered: "0 < stride cfg" "m < int (length second_ids)"
  shows "(stride cfg < m \<longrightarrow>
           (\<exists>ws. sliding_window_loop tk cfg eid first_ids tom m second_ids tpom acc
                   = Some (Inr (acc @ ws))
                 \<and> int (length ws)
                     = 1 + \<lceil>real_of_int (int (length second_ids) - m) / real_of_int (m - stride cfg)\<rceil>))
       \<and> (stride cfg = m \<longrightarrow>
            py_slice_from second_ids (m - stride cfg) = second_ids
            \<and> py_slice_from tpom (m - stride cfg) = tpom
            \<and> sliding_window_loop tk cfg eid first_ids tom m second_ids tpom acc = None)"
proof (intro conjI impI)
  assume lt: "stride cfg < m"
  have fits: "\<forall>p. length p \<le> nat m \<longrightarrow>
             int (length (build_inputs_with_special_tokens tk first_ids (Some p))) \<le> max_seq_len cfg"
    using layout m lt entered(1) by auto
  from sliding_loop_windows[OF fits entered(1) lt, of eid tom second_ids tpom acc]
  obtain ws where ws: "sliding_window_loop tk cfg eid first_ids tom m second_ids tpom acc
                   = Some (Inr (acc @ ws))"
    "length ws = num_windows (nat m) (nat (m - stride cfg)) (length second_ids)"
    by blast
  from entered lt have a: "nat m < length second_ids" "0 < nat (m - stride cfg)" by linarith+
  have r1: "real (length second_ids - nat m) = real_of_int (int (length second_ids) - m)"
    using a(1) entered lt by (simp add: of_nat_diff)
  have r2: "real (nat (m - stride cfg)) = real_of_int (m - stride cfg)"
    using lt by simp
  from num_windows_ceiling[OF a] ws(2)
  have "int (length ws)
          = 1 + \<lceil>real_of_int (int (length second_ids) - m) / real_of_int (m - stride cfg)\<rceil>"
    by (simp only: r1 r2)
  with ws(1) show "\<exists>ws. sliding_window_loop tk cfg eid first_ids tom m second_ids tpom acc
                   = Some (Inr (acc @ ws))
                 \<and> int (length ws)
                     = 1 + \<lceil>real_of_int (int (length second_ids) - m) / real_of_int (m - stride cfg)\<rceil>"
    by blast
next
  assume eq: "stride cfg = m"
  then show "py_slice_from second_ids (m - stride cfg) = second_ids"
    and "py_slice_from tpom (m - stride cfg) = tpom"
    by (simp_all add: py_slice_from_def)
  have "length (py_slice_to second_ids m) \<le> nat m"
    using eq entered(1) by (simp add: py_slice_to_def)
  with layout m eq entered(1)
  have "int (length (build_inputs_with_special_tokens tk first_ids
                     (Some (py_slice_to second_ids m)))) \<le> max_seq_len cfg"
    by auto
  from sliding_loop_forever[OF this eq entered(2)]
  show "sliding_window_loop tk cfg eid first_ids tom m second_ids tpom acc = None" .
qed

theorem sliding_window_loop_termination_witness:
  "(\<exists>ws. sliding_window_loop example_tokenizer (example_config 9 2) 0 [1, 2] [(0, 1), (1, 2)] 4
            [10, 11, 12, 13, 14, 15, 16] [] [] = Some (Inr ws) \<and> length ws = 3)
   \<and> sliding_window_loop example_tokenizer (example_config 9 4) 0 [1, 2] [(0, 1), (1, 2)] 4
            [10, 11, 12, 13, 14, 15, 16] [] [] = None"
  using sliding_window_loop_termination [of example_tokenizer "[1, 2]" 4 "example_config 9 2" "[10, 11, 12, 13, 14, 15, 16]"
              0 "[(0, 1), (1, 2)]" "[]" "[]"]
    sliding_window_loop_termination [of example_tokenizer "[1, 2]" 4 "example_config 9 4" "[10, 11, 12, 13, 14, 15, 16]"
              0 "[(0, 1), (1, 2)]" "[]" "[]"]
  by (simp add: example_layout example_config_def)

section \<open>The sliding windows of a batch item\<close>

subsection \<open>Windows, positions and coverage\<close>

lemma take_drop_positions:
  "take m (drop i xs) = map ((!) xs) [i ..< min (i + m) (length xs)]"
  by (auto simp: list_eq_iff_nth_eq min_def)

lemma bert_layout_length:
  assumes "build_inputs_with_special_tokens tk
             = bert_build_inputs_with_special_tokens (cls_token_id tk) (sep_token_id tk)"
  shows "length (build_inputs_with_special_tokens tk a (Some p)) = length a + length p + 3"
    and "num_special_tokens_to_add tk True = 3"
  using assms
  by (simp_all add: bert_build_inputs_with_special_tokens_def num_special_tokens_to_add_def)

lemma batch_encode_item_sliding:
  assumes "0 < stride cfg"
    and "rematch tk env src = Inr tom" and "rematch tk env tp = Inr tpom"
  shows "batch_encode_item tk env cfg eid src (Some tp) acc =
           sliding_window_loop tk cfg eid (get_input_ids tk src) tom
             (max_seq_len cfg - int (length (get_input_ids tk src))
                - int (num_special_tokens_to_add tk True))
             (get_input_ids tk tp) tpom acc"
  using assms by (simp add: batch_encode_item_def Let_def)

lemma range_overlap:
  assumes "0 < d" and "d \<le> m" and "Suc k < num_windows m d L"
  shows "card (pair_token_range m d L k \<inter> pair_token_range m d L (Suc k)) = m - d"
proof -
  from num_windows_full[OF assms(1,3)] have full: "k * d + m < L" .
  have "pair_token_range m d L k \<inter> pair_token_range m d L (Suc k) = {Suc k * d ..< k * d + m}"
    using full assms(2) by (auto simp: pair_token_range_def)
  then show ?thesis using assms(2) by simp
qed

lemma range_cover:
  assumes "0 < d" and "d \<le> m"
  shows "(\<Union>k < num_windows m d L. pair_token_range m d L k) = {0 ..< L}"
proof (intro set_eqI iffI)
  fix p
  assume "p \<in> (\<Union>k < num_windows m d L. pair_token_range m d L k)"
  then show "p \<in> {0 ..< L}" by (auto simp: pair_token_range_def)
next
  fix p
  assume "p \<in> {0 ..< L}"
  then have p: "p < L" by simp
  let ?N = "num_windows m d L"
  have N: "0 < ?N" by (rule num_windows_pos)
  show "p \<in> (\<Union>k < ?N. pair_token_range m d L k)"
  proof (cases "p div d < ?N")
    case True
    have "p div d * d \<le> p" by simp
    moreover have "p < p div d * d + d"
      using assms(1) dividend_less_div_times[of d p] by (simp add: add.commute)
    ultimately have "p \<in> pair_token_range m d L (p div d)"
      using p assms(2) by (simp add: pair_token_range_def)
    with True show ?thesis by blast
  next
    case False
    then have "?N - 1 \<le> p div d" by simp
    then have "(?N - 1) * d \<le> p div d * d" by (rule mult_le_mono1)
    also have "\<dots> \<le> p" by simp
    finally have lo: "(?N - 1) * d \<le> p" .
    from num_windows_reaches[OF assms(1), of L m] p have "p < (?N - 1) * d + m" by simp
    with lo p have "p \<in> pair_token_range m d L (?N - 1)"
      by (simp add: pair_token_range_def)
    moreover from N have "?N - 1 < ?N" by simp
    ultimately show ?thesis by blast
  qed
qed


lemma item_windows:
  assumes layout: "\<forall>p. length (build_inputs_with_special_tokens tk (get_input_ids tk src) (Some p))
                       = length (get_input_ids tk src) + length p + num_special_tokens_to_add tk True"
    and rm: "rematch tk env src = Inr tom" "rematch tk env tp = Inr tpom"
    and m: "m = max_seq_len cfg - int (length (get_input_ids tk src))
                  - int (num_special_tokens_to_add tk True)"
    and s: "0 < stride cfg" "stride cfg < m"
  shows "\<exists>ws. batch_encode_item tk env cfg eid src (Some tp) acc = Some (Inr (acc @ ws))
           \<and> length ws = num_windows (nat m) (nat (m - stride cfg)) (length (get_input_ids tk tp))
           \<and> (\<forall>k < length ws. \<exists>pm.
                 encode_window tk cfg eid (get_input_ids tk src) tom
                   (take (nat m) (drop (k * nat (m - stride cfg)) (get_input_ids tk tp))) pm
                   = Inr (ws ! k))"
proof -
  have fits: "\<forall>p. length p \<le> nat m \<longrightarrow>
             int (length (build_inputs_with_special_tokens tk (get_input_ids tk src) (Some p)))
               \<le> max_seq_len cfg"
  proof (intro allI impI)
    fix p :: "int list"
    assume "length p \<le> nat m"
    with s have "int (length p) \<le> m" by linarith
    with m show "int (length (build_inputs_with_special_tokens tk (get_input_ids tk src) (Some p)))
               \<le> max_seq_len cfg"
      by (simp add: layout)
  qed
  have item: "batch_encode_item tk env cfg eid src (Some tp) acc =
           sliding_window_loop tk cfg eid (get_input_ids tk src) tom m (get_input_ids tk tp) tpom acc"
    unfolding m by (rule batch_encode_item_sliding[OF s(1) rm])
  from sliding_loop_windows[OF fits s, of eid tom "get_input_ids tk tp" tpom acc] item
  show ?thesis by simp
qed

subsection \<open>Runs of the example tokenizers\<close>

lemma char_mapping_identity:
  assumes "\<forall>c \<in> set src. normalize_char tk env c = [c]"
  shows "rematch_char_mapping tk env src = (src, [0 ..< length src])"
  using assms
proof (induction src rule: rev_induct)
  case Nil
  then show ?case by (simp add: rematch_char_mapping_def)
next
  case (snoc c src)
  then have "rematch_char_mapping tk env src = (src, [0 ..< length src])" by simp
  with snoc.prems show ?case by (simp add: rematch_char_mapping_snoc)
qed

lemma token_mapping_loop_chars:
  assumes "drop off src = rest"
  shows "token_mapping_loop src [0 ..< length src] (map (\<lambda>c. [c]) rest) off tm
           = Inr (tm @ map (\<lambda>i. (i, Suc i)) [off ..< length src])"
  using assms
proof (induction rest arbitrary: off tm)
  case Nil
  then show ?case by simp
next
  case (Cons c rest)
  from Cons.prems have off: "off < length src"
    by (metis drop_all list.distinct(1) not_le_imp_less)
  from Cons.prems have next_drop: "drop (Suc off) src = rest"
    by (metis drop_Suc drop_tl list.sel(3) tl_drop)
  have found: "str_index (py_slice_from src (int off)) (stem [c]) = Some 0"
    using Cons.prems by (simp add: py_slice_from_def stem_def)
  have rd1: "py_index [0 ..< length src] (int off) = Inr off"
    using off by (simp add: py_index_def)
  have rd2: "py_index [0 ..< length src] (int (0 + off + length (stem [c])) - 1) = Inr off"
    using off by (simp add: py_index_def stem_def)
  have "token_mapping_loop src [0 ..< length src] (map (\<lambda>c. [c]) (c # rest)) off tm
          = token_mapping_loop src [0 ..< length src] (map (\<lambda>c. [c]) rest) (Suc off)
              (tm @ [(off, Suc off)])"
    using found rd1 rd2 by (simp add: Let_def stem_def)
  also have "\<dots> = Inr ((tm @ [(off, Suc off)]) @ map (\<lambda>i. (i, Suc i)) [Suc off ..< length src])"
    by (rule Cons.IH[OF next_drop])
  also have "\<dots> = Inr (tm @ map (\<lambda>i. (i, Suc i)) [off ..< length src])"
    using off by (simp add: upt_conv_Cons)
  finally show ?case .
qed

lemma rematch_chars:
  assumes "custom_tokenize tk src = map (\<lambda>c. [c]) src"
    and "\<forall>c \<in> set src. normalize_char tk env c = [c]"
  shows "rematch tk env src = Inr (map (\<lambda>i. (i, Suc i)) [0 ..< length src])"
  using token_mapping_loop_chars[of 0 src src "[]"]
  by (simp add: rematch_def assms(1) char_mapping_identity[OF assms(2)])

lemma example_spec_first:
  "rematch example_tokenizer example_env (ustr ''abcde'')
     = Inr (map (\<lambda>i. (i, Suc i)) [0 ..< length (ustr ''abcde'')])"
  "length (get_input_ids example_tokenizer (ustr ''abcde'')) = 5"
  by (rule rematch_chars)
     (simp_all add: custom_tokenize_def get_input_ids_def tokenize_private_def
        convert_tokens_to_ids_def normalize_char_def example_tokenizer_def example_env_def ustr_def)

lemma example_spec_pair:
  "rematch example_tokenizer example_env (ustr ''abcdefghijklmnopqrst'')
     = Inr (map (\<lambda>i. (i, Suc i)) [0 ..< length (ustr ''abcdefghijklmnopqrst'')])"
  "length (get_input_ids example_tokenizer (ustr ''abcdefghijklmnopqrst'')) = 20"
  by (rule rematch_chars)
     (simp_all add: custom_tokenize_def get_input_ids_def tokenize_private_def
        convert_tokens_to_ids_def normalize_char_def example_tokenizer_def example_env_def ustr_def)

lemma example_first:
  "rematch example_tokenizer example_env (ustr ''ab'')
     = Inr (map (\<lambda>i. (i, Suc i)) [0 ..< length (ustr ''ab'')])"
  "get_input_ids example_tokenizer (ustr ''ab'') = [97, 98]"
  by (rule rematch_chars)
     (simp_all add: custom_tokenize_def get_input_ids_def tokenize_private_def
        convert_tokens_to_ids_def normalize_char_def example_tokenizer_def example_env_def ustr_def)

lemma example_pair:
  "rematch example_tokenizer example_env (ustr ''abcdefg'')
     = Inr (map (\<lambda>i. (i, Suc i)) [0 ..< length (ustr ''abcdefg'')])"
  "get_input_ids example_tokenizer (ustr ''abcdefg'') = [97, 98, 99, 100, 101, 102, 103]"
  by (rule rematch_chars)
     (simp_all add: custom_tokenize_def get_input_ids_def tokenize_private_def
        convert_tokens_to_ids_def normalize_char_def example_tokenizer_def example_env_def ustr_def)

lemma example_bert:
  "build_inputs_with_special_tokens example_tokenizer
     = bert_build_inputs_with_special_tokens (cls_token_id example_tokenizer)
         (sep_token_id example_tokenizer)"
  by (simp add: example_tokenizer_def)

lemma example_fields:
  "cls_token_id example_tokenizer = 101" "sep_token_id example_tokenizer = 102"
  "max_seq_len (example_config n s) = n" "stride (example_config n s) = s"
  by (simp_all add: example_tokenizer_def example_config_def)

lemma example_first_lit:
  "rematch example_tokenizer example_env (ustr ''ab'') = Inr [(0, 1), (1, 2)]"
  using example_first(1) by (simp add: ustr_def upt_conv_Cons)

lemma example_pair_lit:
  "rematch example_tokenizer example_env (ustr ''abcdefg'')
     = Inr [(0, 1), (1, 2), (2, 3), (3, 4), (4, 5), (5, 6), (6, 7)]"
  using example_pair(1) by (simp add: ustr_def upt_conv_Cons)

lemma example_loop:
  "sliding_window_loop example_tokenizer (example_config 9 2) 0 [97, 98] [(0, 1), (1, 2)] 4
     [97, 98, 99, 100, 101, 102, 103]
     [(0, 1), (1, 2), (2, 3), (3, 4), (4, 5), (5, 6), (6, 7)] []
   = Some (Inr
       [\<lparr>input_ids = [101, 97, 98, 102, 97, 98, 99, 100, 102],
         token_type_ids = Some [2, 0, 0, 0, 1, 1, 1, 1, 1],
         special_tokens_mask = Some [1, 0, 0, 1, 0, 0, 0, 0, 1],
         seq_len = Some 9,
         offset_mapping = Some [(0, 0), (0, 1), (1, 2), (0, 0), (0, 1), (1, 2), (2, 3), (3, 4), (0, 0)],
         attention_mask = Some [1, 1, 1, 1, 1, 1, 1, 1, 1],
         position_ids = Some [0, 1, 2, 3, 4, 5, 6, 7, 8],
         overflow_to_sample = Some 0\<rparr>,
        \<lparr>input_ids = [101, 97, 98, 102, 99, 100, 101, 102, 102],
         token_type_ids = Some [2, 0, 0, 0, 1, 1, 1, 1, 1],
         special_tokens_mask = Some [1, 0, 0, 1, 0, 0, 0, 0, 1],
         seq_len = Some 9,
         offset_mapping = Some [(0, 0), (0, 1), (1, 2), (0, 0), (2, 3), (3, 4), (4, 5), (5, 6), (0, 0)],
         attention_mask = Some [1, 1, 1, 1, 1, 1, 1, 1, 1],
         position_ids = Some [0, 1, 2, 3, 4, 5, 6, 7, 8],
         overflow_to_sample = Some 0\<rparr>,
        \<lparr>input_ids = [101, 97, 98, 102, 101, 102, 103, 102, 0],
         token_type_ids = Some [2, 0, 0, 0, 1, 1, 1, 1, 3],
         special_tokens_mask = Some [1, 0, 0, 1, 0, 0, 0, 1, 1],
         seq_len = Some 8,
         offset_mapping = Some [(0, 0), (0, 1), (1, 2), (0, 0), (4, 5), (5, 6), (6, 7), (0, 0), (0, 0)],
         attention_mask = Some [1, 1, 1, 1, 1, 1, 1, 1, 0],
         position_ids = Some [0, 1, 2, 3, 4, 5, 6, 7, 8],
         overflow_to_sample = Some 0\<rparr>])"
  by (simp add: sliding_window_loop.simps encode_window_def pad_encoded_inputs_def
        get_special_tokens_mask_def create_token_type_ids_from_sequences_def cls_token_type_id_def
        build_offset_mapping_with_special_tokens_def example_tokenizer_def example_config_def
        bert_build_inputs_with_special_tokens_def py_slice_to_def py_slice_from_def Let_def
        upt_conv_Cons)


lemma example_run:
  "batch_encode_item example_tokenizer example_env (example_config 9 2) 0 (ustr ''ab'')
     (Some (ustr ''abcdefg'')) []
   = sliding_window_loop example_tokenizer (example_config 9 2) 0 [97, 98] [(0, 1), (1, 2)] 4
     [97, 98, 99, 100, 101, 102, 103]
     [(0, 1), (1, 2), (2, 3), (3, 4), (4, 5), (5, 6), (6, 7)] []"
proof -
  have s: "0 < stride (example_config 9 2)" by (simp add: example_fields)
  show ?thesis
    unfolding batch_encode_item_sliding[OF s example_first_lit example_pair_lit]
    by (simp add: example_first(2) example_pair(2) example_layout example_fields)
qed

lemma example_spec_windows:
  "\<exists>ws. batch_encode_item example_tokenizer example_env (example_config 12 2) eid
            (ustr ''abcde'') (Some (ustr ''abcdefghijklmnopqrst'')) acc = Some (Inr (acc @ ws))
      \<and> length ws = 9"
proof -
  have add: "\<forall>p. length (build_inputs_with_special_tokens example_tokenizer
                       (get_input_ids example_tokenizer (ustr ''abcde'')) (Some p))
                  = length (get_input_ids example_tokenizer (ustr ''abcde'')) + length p
                      + num_special_tokens_to_add example_tokenizer True"
    by (simp add: example_layout)
  have m: "4 = max_seq_len (example_config 12 2)
                 - int (length (get_input_ids example_tokenizer (ustr ''abcde'')))
                 - int (num_special_tokens_to_add example_tokenizer True)"
    by (simp add: example_spec_first example_layout example_fields)
  have s: "0 < stride (example_config 12 2)" "stride (example_config 12 2) < 4"
    by (simp_all add: example_fields)
  from item_windows[OF add example_spec_first(1) example_spec_pair(1) m s, of eid acc]
  show ?thesis
    by (auto simp: example_spec_pair num_windows_def example_fields)
qed

subsection \<open>Coverage\<close>

text \<open>
  C1: for a batch item with a pair and stride \<open>s\<close>, with
  \<open>m = max_seq_len - len(first_ids) - overhead\<close> and \<open>0 < s < m\<close> (the special-token
  layout being the specification's, and \<^verbatim>\<open>rematch\<close> not failing): every emitted
  window holds the full \<open>first_ids\<close>, followed by the pair tokens at the positions
  \<open>pair_token_range\<close> of that window; the ranges of two consecutive windows share
  exactly \<open>s\<close> positions (the final window included); and the ranges together are all
  positions of \<open>pair_ids\<close>, without a gap.
\<close>

theorem sliding_window_coverage:
  assumes layout: "build_inputs_with_special_tokens tk
                     = bert_build_inputs_with_special_tokens (cls_token_id tk) (sep_token_id tk)"
    and rm: "rematch tk env src = Inr tom" "rematch tk env tp = Inr tpom"
    and m: "m = max_seq_len cfg - int (length (get_input_ids tk src))
                  - int (num_special_tokens_to_add tk True)"
    and s: "0 < stride cfg" "stride cfg < m"
    and d: "d = nat (m - stride cfg)" and L: "L = length (get_input_ids tk tp)"
  shows "\<exists>ws. batch_encode_item tk env cfg eid src (Some tp) acc = Some (Inr (acc @ ws))
           \<and> ws \<noteq> []
           \<and> (\<forall>k < length ws. \<exists>pre post.
                 input_ids (ws ! k)
                   = pre @ [cls_token_id tk] @ get_input_ids tk src @ [sep_token_id tk]
                       @ map ((!) (get_input_ids tk tp))
                           (sorted_list_of_set (pair_token_range (nat m) d L k))
                       @ [sep_token_id tk] @ post)
           \<and> (\<forall>k. Suc k < length ws \<longrightarrow>
                 card (pair_token_range (nat m) d L k \<inter> pair_token_range (nat m) d L (Suc k))
                   = nat (stride cfg))
           \<and> (\<Union>k < length ws. pair_token_range (nat m) d L k) = {0 ..< L}"
proof -
  let ?first = "get_input_ids tk src" and ?second = "get_input_ids tk tp"
  from s d have dpos: "0 < d" "d \<le> nat m" by linarith+
  from s d have md: "nat m - d = nat (stride cfg)" by linarith
  have add: "\<forall>p. length (build_inputs_with_special_tokens tk ?first (Some p))
                  = length ?first + length p + num_special_tokens_to_add tk True"
    by (simp add: bert_layout_length[OF layout])
  from item_windows[OF add rm m s, of eid acc]
  obtain ws where ws: "batch_encode_item tk env cfg eid src (Some tp) acc = Some (Inr (acc @ ws))"
    "length ws = num_windows (nat m) d L"
    "\<forall>k < length ws. \<exists>pm. encode_window tk cfg eid ?first tom
           (take (nat m) (drop (k * d) ?second)) pm = Inr (ws ! k)"
    unfolding d L by blast
  have nonempty: "ws \<noteq> []"
    using ws(2) num_windows_pos[of "nat m" d L] by auto
  have ids: "\<exists>pre post. input_ids (ws ! k)
                   = pre @ [cls_token_id tk] @ ?first @ [sep_token_id tk]
                       @ map ((!) ?second) (sorted_list_of_set (pair_token_range (nat m) d L k))
                       @ [sep_token_id tk] @ post" if "k < length ws" for k
  proof -
    from ws(3) that obtain pm where "encode_window tk cfg eid ?first tom
           (take (nat m) (drop (k * d) ?second)) pm = Inr (ws ! k)" by blast
    from encode_window_input_ids[OF this] obtain pre post where
      "input_ids (ws ! k) = pre @ build_inputs_with_special_tokens tk ?first
           (Some (take (nat m) (drop (k * d) ?second))) @ post"
      by blast
    moreover have "take (nat m) (drop (k * d) ?second)
        = map ((!) ?second) (sorted_list_of_set (pair_token_range (nat m) d L k))"
      by (simp add: take_drop_positions pair_token_range_def L)
    ultimately have "input_ids (ws ! k)
        = pre @ [cls_token_id tk] @ ?first @ [sep_token_id tk]
            @ map ((!) ?second) (sorted_list_of_set (pair_token_range (nat m) d L k))
            @ [sep_token_id tk] @ post"
      by (simp add: layout bert_build_inputs_with_special_tokens_def)
    then show ?thesis by blast
  qed
  have overlap: "card (pair_token_range (nat m) d L k \<inter> pair_token_range (nat m) d L (Suc k))
                   = nat (stride cfg)" if "Suc k < length ws" for k
    using range_overlap[OF dpos, of k L] that ws(2) md by simp
  have cover: "(\<Union>k < length ws. pair_token_range (nat m) d L k) = {0 ..< L}"
    unfolding ws(2) by (rule range_cover[OF dpos])
  from ws(1) nonempty ids overlap cover show ?thesis by auto
qed

theorem sliding_window_coverage_witness:
  "\<exists>ws. batch_encode_item example_tokenizer example_env (example_config 9 2) 0 (ustr ''ab'')
            (Some (ustr ''abcdefg'')) [] = Some (Inr ws)
      \<and> ws \<noteq> []
      \<and> (\<forall>k < length ws. \<exists>pre post.
            input_ids (ws ! k)
              = pre @ [101, 97, 98, 102]
                  @ map ((!) [97, 98, 99, 100, 101, 102, 103])
                      (sorted_list_of_set (pair_token_range 4 2 7 k))
                  @ [102] @ post)
      \<and> (\<forall>k. Suc k < length ws \<longrightarrow>
            card (pair_token_range 4 2 7 k \<inter> pair_token_range 4 2 7 (Suc k)) = 2)
      \<and> (\<Union>k < length ws. pair_token_range 4 2 7 k) = {0 ..< 7}"
proof -
  have m: "4 = max_seq_len (example_config 9 2)
                 - int (length (get_input_ids example_tokenizer (ustr ''ab'')))
                 - int (num_special_tokens_to_add example_tokenizer True)"
    by (simp add: example_first example_layout example_config_def)
  have s: "0 < stride (example_config 9 2)" "stride (example_config 9 2) < 4"
    by (simp_all add: example_config_def)
  have d: "2 = nat (4 - stride (example_config 9 2))" by (simp add: example_config_def)
  have L: "7 = length (get_input_ids example_tokenizer (ustr ''abcdefg''))"
    by (simp add: example_pair)
  from sliding_window_coverage [OF example_bert example_first(1) example_pair(1) m s d L, of 0 "[]"]
  show ?thesis
    by (simp add: example_first example_pair example_fields)
qed

subsection \<open>The example of the specification\<close>

text \<open>
  The claim C3 takes 5 first ids, 20 pair ids, \<open>max_seq_len = 12\<close> and \<open>stride = 2\<close>,
  and reads off an overhead of 4, \<open>max_len_for_pair = 3\<close> and 8 windows. The overhead is
  what \<^verbatim>\<open>num_special_tokens_to_add\<close> measures on the layout
  \<^verbatim>\<open>[cls] A [sep] B [sep]\<close>, which is 3: so \<open>max_len_for_pair\<close> is 4, the loop
  advances by \<open>4 - 2 = 2\<close> tokens per round and stops when at most 4 pair tokens
  remain, after 9 rounds. The run below is the whole of \<^verbatim>\<open>batch_encode\<close> on such an
  item.
\<close>

theorem spec_example_windows_counterexample:
  "num_special_tokens_to_add example_tokenizer True = 3
   \<and> max_seq_len (example_config 12 2)
         - int (length (get_input_ids example_tokenizer (ustr ''abcde'')))
         - int (num_special_tokens_to_add example_tokenizer True) = 4
   \<and> map_option (map_sum id length)
        (batch_encode example_tokenizer example_env (example_config 12 2)
           [(ustr ''abcde'', Some (ustr ''abcdefghijklmnopqrst''))]) = Some (Inr 9)
   \<and> map_option (map_sum id length)
        (batch_encode example_tokenizer example_env (example_config 12 2)
           [(ustr ''abcde'', Some (ustr ''abcdefghijklmnopqrst''))]) \<noteq> Some (Inr 8)"
proof -
  from example_spec_windows[of 0 "[]"] obtain ws where
    "batch_encode_item example_tokenizer example_env (example_config 12 2) 0
            (ustr ''abcde'') (Some (ustr ''abcdefghijklmnopqrst'')) [] = Some (Inr ws)"
    "length ws = 9"
    by auto
  then show ?thesis
    by (simp add: batch_encode_def example_layout example_spec_first example_fields)
qed

text \<open>
  C3, amended: for a batch item with 5 first ids, 20 pair ids, \<open>max_seq_len = 12\<close> and
  \<open>stride = 2\<close>, the special tokens of a pair being those of the layout
  \<^verbatim>\<open>[cls] A [sep] B [sep]\<close>, the overhead is 3, \<^verbatim>\<open>batch_encode\<close> computes
  \<open>max_len_for_pair = 4\<close> and emits exactly 9 windows, and the last emitted window's
  \<open>overflow_to_sample\<close> is the item's batch index.
\<close>

theorem spec_example_windows:
  assumes layout: "build_inputs_with_special_tokens tk
                     = bert_build_inputs_with_special_tokens (cls_token_id tk) (sep_token_id tk)"
    and rm: "rematch tk env src = Inr tom" "rematch tk env tp = Inr tpom"
    and lens: "length (get_input_ids tk src) = 5" "length (get_input_ids tk tp) = 20"
    and cfg: "max_seq_len cfg = 12" "stride cfg = 2"
  shows "num_special_tokens_to_add tk True = 3
         \<and> max_seq_len cfg - int (length (get_input_ids tk src))
              - int (num_special_tokens_to_add tk True) = 4
         \<and> (\<exists>ws. batch_encode_item tk env cfg eid src (Some tp) acc = Some (Inr (acc @ ws))
                 \<and> length ws = 9
                 \<and> overflow_to_sample (last ws) = Some eid)"
proof -
  let ?first = "get_input_ids tk src" and ?second = "get_input_ids tk tp"
  note ov = bert_layout_length(2)[OF layout]
  have m: "4 = max_seq_len cfg - int (length ?first) - int (num_special_tokens_to_add tk True)"
    by (simp add: ov lens cfg)
  have s: "0 < stride cfg" "stride cfg < 4" by (simp_all add: cfg)
  have add: "\<forall>p. length (build_inputs_with_special_tokens tk ?first (Some p))
                  = length ?first + length p + num_special_tokens_to_add tk True"
    by (simp add: bert_layout_length[OF layout])
  from item_windows[OF add rm m s, of eid acc]
  obtain ws where ws: "batch_encode_item tk env cfg eid src (Some tp) acc = Some (Inr (acc @ ws))"
    "length ws = num_windows (nat 4) (nat (4 - stride cfg)) (length ?second)"
    "\<forall>k < length ws. \<exists>pm. encode_window tk cfg eid ?first tom
           (take (nat 4) (drop (k * nat (4 - stride cfg)) ?second)) pm = Inr (ws ! k)"
    by blast
  from ws(2) have n: "length ws = 9"
    by (simp add: lens cfg num_windows_def)
  then have ne: "ws \<noteq> []" by auto
  have "8 < length ws" by (simp add: n)
  with ws(3) obtain pm where "encode_window tk cfg eid ?first tom
           (take (nat 4) (drop (8 * nat (4 - stride cfg)) ?second)) pm = Inr (ws ! 8)"
    by blast
  from encode_window_sample[OF this] have "overflow_to_sample (ws ! 8) = Some eid" .
  moreover have "last ws = ws ! 8" using n ne by (simp add: last_conv_nth)
  ultimately have "overflow_to_sample (last ws) = Some eid" by simp
  with ov m ws(1) n show ?thesis by simp
qed

theorem spec_example_windows_witness:
  "length (get_input_ids example_tokenizer (ustr ''abcde'')) = 5
   \<and> length (get_input_ids example_tokenizer (ustr ''abcdefghijklmnopqrst'')) = 20
   \<and> max_seq_len (example_config 12 2) = 12 \<and> stride (example_config 12 2) = 2
   \<and> num_special_tokens_to_add example_tokenizer True = 3
   \<and> (\<exists>ws. batch_encode_item example_tokenizer example_env (example_config 12 2) 7
              (ustr ''abcde'') (Some (ustr ''abcdefghijklmnopqrst'')) [] = Some (Inr ws)
         \<and> length ws = 9 \<and> overflow_to_sample (last ws) = Some 7)"
proof -
  have cfg: "max_seq_len (example_config 12 2) = 12" "stride (example_config 12 2) = 2"
    by (simp_all add: example_fields)
  from spec_example_windows [OF example_bert example_spec_first(1) example_spec_pair(1)
      example_spec_first(2) example_spec_pair(2) cfg, of 7 "[]"]
  show ?thesis by (simp add: example_spec_first example_spec_pair cfg)
qed

subsection \<open>Field lengths\<close>

lemma token_mapping_loop_length:
  "token_mapping_loop src cm tokens off tm = Inr r \<Longrightarrow> length r = length tm + length tokens"
proof (induction tokens arbitrary: off tm)
  case Nil
  then show ?case by simp
next
  case (Cons token tokens)
  from Cons.prems obtain i a b where
    "token_mapping_loop src cm tokens (i + off + length (stem token)) (tm @ [(a, b + 1)]) = Inr r"
    by (auto simp: Let_def split: option.splits sum.splits)
  from Cons.IH[OF this] show ?case by simp
qed

lemma rematch_length:
  assumes "rematch tk env src = Inr tom"
  shows "length tom = length (get_input_ids tk src)"
proof -
  from assms have "token_mapping_loop (fst (rematch_char_mapping tk env src))
      (snd (rematch_char_mapping tk env src)) (custom_tokenize tk src) 0 [] = Inr tom"
    by (simp add: rematch_def split_beta)
  from token_mapping_loop_length[OF this]
  have "length tom = length (custom_tokenize tk src)" by simp
  also have "\<dots> = length (tokenize_private tk src)"
    by (simp add: custom_tokenize_concat tokenize_private_concat length_concat o_def)
  finally show ?thesis by (simp add: get_input_ids_def convert_tokens_to_ids_def)
qed

lemma py_slices_same_length:
  "length xs = length ys \<Longrightarrow> length (py_slice_to xs i) = length (py_slice_to ys i)"
  "length xs = length ys \<Longrightarrow> length (py_slice_from xs i) = length (py_slice_from ys i)"
  by (simp_all add: py_slice_to_def py_slice_from_def)

lemma sliding_loop_equal_lengths:
  assumes run: "sliding_window_loop tk cfg eid first_ids tom m second_ids tpom acc = Some y"
  shows "(\<forall>p. length (build_inputs_with_special_tokens tk first_ids (Some p))
               = length first_ids + length p + 3)
         \<longrightarrow> length tom = length first_ids \<longrightarrow> length tpom = length second_ids
         \<longrightarrow> (\<forall>out. y = Inr out \<longrightarrow>
               (\<exists>ws. out = acc @ ws
                  \<and> (\<forall>w \<in> set ws. equal_field_lengths w
                        \<and> (\<exists>om. offset_mapping w = Some om \<and> length om = length (input_ids w)))))"
  using run
proof (induction rule: sliding_window_loop.raw_induct[rotated 1, consumes 1])
  case (1 loop tk cfg eid first_ids tom m second_ids tpom acc y)
  show ?case
  proof (intro impI allI)
    fix out
    assume bld: "\<forall>p. length (build_inputs_with_special_tokens tk first_ids (Some p))
               = length first_ids + length p + 3"
      and lt: "length tom = length first_ids" and lp: "length tpom = length second_ids"
      and y: "y = Inr out"
    let ?good = "\<lambda>w. equal_field_lengths w
                   \<and> (\<exists>om. offset_mapping w = Some om \<and> length om = length (input_ids w))"
    show "\<exists>ws. out = acc @ ws \<and> (\<forall>w \<in> set ws. ?good w)"
    proof (cases "int (length second_ids) \<le> m")
      case True
      with 1(2) y obtain w where w: "encode_window tk cfg eid first_ids tom second_ids tpom = Inr w"
        and out: "out = acc @ [w]"
        by (auto simp: Let_def split: sum.splits)
      from encode_window_equal_lengths[OF w bld[rule_format] lt lp] have "?good w" .
      with out show ?thesis by auto
    next
      case False
      with 1(2) y obtain w where
        w: "encode_window tk cfg eid first_ids tom (py_slice_to second_ids m) (py_slice_to tpom m) = Inr w"
        and rec: "loop tk cfg eid first_ids tom m (py_slice_from second_ids (m - stride cfg))
                    (py_slice_from tpom (m - stride cfg)) (acc @ [w]) = Some (Inr out)"
        by (auto simp: Let_def split: sum.splits)
      from encode_window_equal_lengths[OF w bld[rule_format] lt py_slices_same_length(1)[OF lp]]
      have gw: "?good w" .
      from 1(1)[OF rec] bld lt py_slices_same_length(2)[OF lp]
      obtain ws where "out = (acc @ [w]) @ ws" "\<forall>w \<in> set ws. ?good w"
        by blast
      with gw have "out = acc @ (w # ws)" "\<forall>v \<in> set (w # ws). ?good v" by auto
      then show ?thesis by blast
    qed
  qed
qed

text \<open>
  C4: every dictionary emitted by the sliding-window path of \<^verbatim>\<open>batch_encode\<close>
  (string \<open>text\<close> and \<open>text_pair\<close>, \<open>stride > 0\<close>, the special-token layout being the
  specification's) has, after special tokens and padding, all its present
  sequence-valued fields of the length of \<open>input_ids\<close>; \<open>offset_mapping\<close> is present
  and has that length.
\<close>

theorem sliding_window_field_lengths:
  assumes layout: "build_inputs_with_special_tokens tk
                     = bert_build_inputs_with_special_tokens (cls_token_id tk) (sep_token_id tk)"
    and s: "0 < stride cfg"
    and run: "batch_encode_item tk env cfg eid src (Some tp) acc = Some (Inr out)"
  shows "\<exists>ws. out = acc @ ws
           \<and> (\<forall>w \<in> set ws.
                 equal_field_lengths w
                 \<and> (\<exists>om. offset_mapping w = Some om \<and> length om = length (input_ids w)))"
proof -
  from run s obtain tom where tom: "rematch tk env src = Inr tom"
    by (cases "rematch tk env src") (auto simp: batch_encode_item_def Let_def)
  from run s tom obtain tpom where tpom: "rematch tk env tp = Inr tpom"
    by (cases "rematch tk env tp") (auto simp: batch_encode_item_def Let_def)
  from run batch_encode_item_sliding[OF s tom tpom, of eid acc]
  have loop: "sliding_window_loop tk cfg eid (get_input_ids tk src) tom
             (max_seq_len cfg - int (length (get_input_ids tk src))
                - int (num_special_tokens_to_add tk True))
             (get_input_ids tk tp) tpom acc = Some (Inr out)"
    by simp
  have bld: "\<forall>p. length (build_inputs_with_special_tokens tk (get_input_ids tk src) (Some p))
               = length (get_input_ids tk src) + length p + 3"
    by (simp add: bert_layout_length[OF layout])
  from sliding_loop_equal_lengths[OF loop] bld rematch_length[OF tom] rematch_length[OF tpom]
  show ?thesis by blast
qed

theorem sliding_window_field_lengths_witness:
  "\<exists>out. batch_encode_item example_tokenizer example_env (example_config 9 2) 0 (ustr ''ab'')
             (Some (ustr ''abcdefg'')) [] = Some (Inr out)
      \<and> map input_ids out
           = [[101, 97, 98, 102, 97, 98, 99, 100, 102], [101, 97, 98, 102, 99, 100, 101, 102, 102],
              [101, 97, 98, 102, 101, 102, 103, 102, 0]]
      \<and> map offset_mapping out
           = [Some [(0, 0), (0, 1), (1, 2), (0, 0), (0, 1), (1, 2), (2, 3), (3, 4), (0, 0)],
              Some [(0, 0), (0, 1), (1, 2), (0, 0), (2, 3), (3, 4), (4, 5), (5, 6), (0, 0)],
              Some [(0, 0), (0, 1), (1, 2), (0, 0), (4, 5), (5, 6), (6, 7), (0, 0), (0, 0)]]
      \<and> list_all equal_field_lengths out"
proof -
  have s: "0 < stride (example_config 9 2)" by (simp add: example_fields)
  note run = example_run[unfolded example_loop]
  from sliding_window_field_lengths [OF example_bert s run] have "list_all equal_field_lengths
       (projr (the (batch_encode_item example_tokenizer example_env (example_config 9 2) 0
          (ustr ''ab'') (Some (ustr ''abcdefg'')) [])))"
    by (auto simp: run list_all_iff)
  with run show ?thesis by simp
qed

end
